theory Spec2Isabelle
  imports Complex_Main "HOL-Library.Log_Nat"
begin

section \<open>DiscreteParameter: a discrete hyperparameter on a numerical interval\<close>

text \<open>
  A shallow embedding of \<^verbatim>\<open>search/models/parameters/discreteparameter.py\<close>.
  The numeric fields \<^verbatim>\<open>low\<close>, \<^verbatim>\<open>high\<close> and \<^verbatim>\<open>step_size\<close> hold Python numbers: an
  \<^verbatim>\<open>int\<close> (unbounded) or a \<^verbatim>\<open>float\<close> (an IEEE 754 double). Exceptions are values of
  the type \<open>error\<close>, and a method that can raise returns \<open>error + 'a\<close>.
\<close>

subsection \<open>Enumerated types and exceptions\<close>

datatype StepType = ARITHMETIC | GEOMETRIC

text \<open>
  Only the member \<^verbatim>\<open>DEFAULT\<close> of \<^verbatim>\<open>DiscreteRepresentationType\<close> is named in this module.
\<close>

datatype DiscreteRepresentationType = DEFAULT

text \<open>
  The exceptions the module can raise: the built-in \<^verbatim>\<open>Warning\<close> with its message (the
  source appends the rendering of the parameter to the text kept here),
  \<^verbatim>\<open>AttributeError\<close> and \<^verbatim>\<open>NameError\<close> with the name that was looked up, and the
  arithmetic exceptions \<^verbatim>\<open>ZeroDivisionError\<close>, \<^verbatim>\<open>OverflowError\<close> and \<^verbatim>\<open>ValueError\<close>.
  \<open>ValidationError\<close> is the dedicated failure the specification speaks of; no path of
  the source constructs it.
\<close>

datatype error =
    Warning string
  | AttributeError string
  | NameError string
  | ZeroDivisionError
  | OverflowError
  | ValueError
  | ValidationError string

subsection \<open>Python numbers\<close>

text \<open>
  A double is a rational, an infinity or the not-a-number. The two zeros of IEEE 754 are
  one value here: Python's comparisons do not tell them apart, and dividing by either
  raises. A number is an \<^verbatim>\<open>int\<close> or a \<^verbatim>\<open>float\<close>. The rational of a float that
  Python can hold is one that \<open>round_double\<close> below leaves as it is; every operation
  rounds its exact result.
\<close>

datatype double = Finite rat | PosInf | NegInf | NaN

datatype number = PyInt int | PyFloat double

text \<open>
  Rounding to nearest with ties to even, as IEEE 754 binary64 does: 53 significant bits
  for a normal result, a fixed unit of \<open>2 ^ -1074\<close> below \<open>2 ^ -1022\<close> (subnormal results).
  \<open>round_double\<close> is the rounding before the test for overflow.
\<close>

definition round_half_even :: "rat \<Rightarrow> int" where
  "round_half_even y =
     (let f = \<lfloor>y\<rfloor>; r = y - of_int f
      in if r < 1 / 2 then f else if 1 / 2 < r then f + 1 else if even f then f else f + 1)"

text \<open>\<open>ilog2 x\<close> is the exponent \<open>e\<close> with \<open>2 ^ e \<le> x < 2 ^ (e + 1)\<close>, for \<open>x > 0\<close>.\<close>

definition ilog2 :: "rat \<Rightarrow> int" where
  "ilog2 x =
     (if 1 \<le> x then bitlen \<lfloor>x\<rfloor> - 1
      else let k = bitlen \<lfloor>1 / x\<rfloor> in if 1 \<le> x * 2 ^ nat (k - 1) then 1 - k else - k)"

definition round_double :: "rat \<Rightarrow> rat" where
  "round_double x =
     (if x = 0 then 0
      else let ulp = 2 powi (max (ilog2 \<bar>x\<bar>) (- 1022) - 52)
           in of_int (round_half_even (x / ulp)) * ulp)"

text \<open>
  The result of a float operation whose exact value is \<open>x\<close>: a rounded value of magnitude
  \<open>2 ^ 1024\<close> or more is an infinity.
\<close>

definition to_double :: "rat \<Rightarrow> double" where
  "to_double x =
     (let r = round_double x
      in if 2 ^ 1024 \<le> r then PosInf else if r \<le> - (2 ^ 1024) then NegInf else Finite r)"

text \<open>
  The conversion of an \<^verbatim>\<open>int\<close> to a double, which raises \<^verbatim>\<open>OverflowError\<close> where the
  rounded value is out of range, and \<^verbatim>\<open>float(x)\<close>, which returns a float as it is.
\<close>

definition int_to_double :: "int \<Rightarrow> error + rat" where
  "int_to_double i =
     (let r = round_double (of_int i)
      in if 2 ^ 1024 \<le> \<bar>r\<bar> then Inl OverflowError else Inr r)"

definition py_float :: "number \<Rightarrow> error + double" where
  "py_float x =
     (case x of
        PyFloat f \<Rightarrow> Inr f
      | PyInt i \<Rightarrow> (case int_to_double i of Inl e \<Rightarrow> Inl e | Inr r \<Rightarrow> Inr (Finite r)))"

text \<open>Float arithmetic. No operation on two floats raises, except the division by zero.\<close>

fun float_neg :: "double \<Rightarrow> double" where
  "float_neg (Finite x) = Finite (- x)"
| "float_neg PosInf = NegInf"
| "float_neg NegInf = PosInf"
| "float_neg NaN = NaN"

fun float_add :: "double \<Rightarrow> double \<Rightarrow> double" where
  "float_add (Finite x) (Finite y) = to_double (x + y)"
| "float_add NaN _ = NaN"
| "float_add _ NaN = NaN"
| "float_add PosInf NegInf = NaN"
| "float_add NegInf PosInf = NaN"
| "float_add PosInf _ = PosInf"
| "float_add NegInf _ = NegInf"
| "float_add (Finite x) PosInf = PosInf"
| "float_add (Finite x) NegInf = NegInf"

definition float_sub :: "double \<Rightarrow> double \<Rightarrow> double" where
  "float_sub a b = float_add a (float_neg b)"

text \<open>The sign of a double: \<open>1\<close>, \<open>0\<close> or \<open>-1\<close> (\<open>0\<close> also for the not-a-number).\<close>

fun float_sgn :: "double \<Rightarrow> int" where
  "float_sgn (Finite x) = (if 0 < x then 1 else if x < 0 then - 1 else 0)"
| "float_sgn PosInf = 1"
| "float_sgn NegInf = - 1"
| "float_sgn NaN = 0"

definition signed_inf :: "int \<Rightarrow> double" where
  "signed_inf s = (if 0 < s then PosInf else if s < 0 then NegInf else NaN)"

fun float_mul :: "double \<Rightarrow> double \<Rightarrow> double" where
  "float_mul (Finite x) (Finite y) = to_double (x * y)"
| "float_mul NaN _ = NaN"
| "float_mul _ NaN = NaN"
| "float_mul a b = signed_inf (float_sgn a * float_sgn b)"

fun float_div :: "double \<Rightarrow> double \<Rightarrow> error + double" where
  "float_div a (Finite y) =
     (if y = 0 then Inl ZeroDivisionError
      else case a of
             Finite x \<Rightarrow> Inr (to_double (x / y))
           | NaN \<Rightarrow> Inr NaN
           | _ \<Rightarrow> Inr (signed_inf (float_sgn a * float_sgn (Finite y))))"
| "float_div _ NaN = Inr NaN"
| "float_div (Finite x) _ = Inr (Finite 0)"
| "float_div _ _ = Inr NaN"

text \<open>
  Comparisons. Every comparison with the not-a-number is false.
\<close>

fun float_lt :: "double \<Rightarrow> double \<Rightarrow> bool" where
  "float_lt (Finite x) (Finite y) = (x < y)"
| "float_lt NaN _ = False"
| "float_lt _ NaN = False"
| "float_lt _ NegInf = False"
| "float_lt NegInf _ = True"
| "float_lt PosInf _ = False"
| "float_lt (Finite x) PosInf = True"

fun float_eq :: "double \<Rightarrow> double \<Rightarrow> bool" where
  "float_eq (Finite x) (Finite y) = (x = y)"
| "float_eq PosInf PosInf = True"
| "float_eq NegInf NegInf = True"
| "float_eq _ _ = False"

definition float_le :: "double \<Rightarrow> double \<Rightarrow> bool" where
  "float_le a b = (float_lt a b \<or> float_eq a b)"

text \<open>
  \<^verbatim>\<open>math.floor\<close> of a float, an \<^verbatim>\<open>int\<close>: it raises on an infinity and on the
  not-a-number.
\<close>

fun math_floor :: "double \<Rightarrow> error + int" where
  "math_floor (Finite x) = Inr \<lfloor>x\<rfloor>"
| "math_floor NaN = Inl ValueError"
| "math_floor PosInf = Inl OverflowError"
| "math_floor NegInf = Inl OverflowError"

text \<open>
  The operators on numbers. A comparison of an \<^verbatim>\<open>int\<close> with a \<^verbatim>\<open>float\<close> compares the
  exact values, with no conversion. An arithmetic operator on two \<^verbatim>\<open>int\<close>s is exact;
  with a \<^verbatim>\<open>float\<close> operand it converts the other operand, which can raise, and works on
  floats.
\<close>

fun exact :: "number \<Rightarrow> double" where
  "exact (PyInt i) = Finite (of_int i)"
| "exact (PyFloat f) = f"

definition py_lt :: "number \<Rightarrow> number \<Rightarrow> bool" where
  "py_lt a b = float_lt (exact a) (exact b)"

definition py_le :: "number \<Rightarrow> number \<Rightarrow> bool" where
  "py_le a b = float_le (exact a) (exact b)"

definition py_eq :: "number \<Rightarrow> number \<Rightarrow> bool" where
  "py_eq a b = float_eq (exact a) (exact b)"

definition py_gt :: "number \<Rightarrow> number \<Rightarrow> bool" where
  "py_gt a b = py_lt b a"

definition py_ge :: "number \<Rightarrow> number \<Rightarrow> bool" where
  "py_ge a b = py_le b a"

fun py_neg :: "number \<Rightarrow> number" where
  "py_neg (PyInt i) = PyInt (- i)"
| "py_neg (PyFloat f) = PyFloat (float_neg f)"

definition float_op ::
  "(double \<Rightarrow> double \<Rightarrow> double) \<Rightarrow> number \<Rightarrow> number \<Rightarrow> error + number" where
  "float_op f a b =
     (case py_float a of
        Inl e \<Rightarrow> Inl e
      | Inr x \<Rightarrow> (case py_float b of Inl e \<Rightarrow> Inl e | Inr y \<Rightarrow> Inr (PyFloat (f x y))))"

fun py_add :: "number \<Rightarrow> number \<Rightarrow> error + number" where
  "py_add (PyInt i) (PyInt j) = Inr (PyInt (i + j))"
| "py_add a b = float_op float_add a b"

fun py_mul :: "number \<Rightarrow> number \<Rightarrow> error + number" where
  "py_mul (PyInt i) (PyInt j) = Inr (PyInt (i * j))"
| "py_mul a b = float_op float_mul a b"

text \<open>
  \<^verbatim>\<open>a ** n\<close> for an \<^verbatim>\<open>int\<close> \<open>n \<ge> 0\<close>. On an \<^verbatim>\<open>int\<close> it is exact. On a \<^verbatim>\<open>float\<close>
  the exponent is converted to a double first, which can raise; \<open>k\<close> below is the integer
  that double denotes. Then \<^verbatim>\<open>x ** 0\<close> is 1 for every \<open>x\<close>, the infinities and zero are
  treated apart, and the remaining cases go to the \<^verbatim>\<open>pow\<close> of the platform, whose overflow
  is raised as \<^verbatim>\<open>OverflowError\<close>. The platform's result is taken as correctly rounded.
\<close>

definition float_pow :: "double \<Rightarrow> nat \<Rightarrow> error + double" where
  "float_pow v k =
     (if k = 0 then Inr (Finite 1)
      else case v of
             NaN \<Rightarrow> Inr NaN
           | PosInf \<Rightarrow> Inr PosInf
           | NegInf \<Rightarrow> Inr (if odd k then NegInf else PosInf)
           | Finite x \<Rightarrow>
               (if x = 0 then Inr (Finite 0)
                else case to_double (x ^ k) of
                       Finite r \<Rightarrow> Inr (Finite r)
                     | _ \<Rightarrow> Inl OverflowError))"

definition py_pow :: "number \<Rightarrow> nat \<Rightarrow> error + number" where
  "py_pow a n =
     (case a of
        PyInt i \<Rightarrow> Inr (PyInt (i ^ n))
      | PyFloat v \<Rightarrow>
          (case int_to_double (int n) of
             Inl e \<Rightarrow> Inl e
           | Inr w \<Rightarrow> map_sum id PyFloat (float_pow v (nat \<lfloor>w\<rfloor>))))"

subsection \<open>The object\<close>

text \<open>
  The fields assigned by \<^verbatim>\<open>__init__\<close>. Python does not type them: \<open>step_type\<close> and
  \<open>repr_type\<close> are \<open>None\<close> when the object stored there is not a member of the
  enumeration, which is what the \<^verbatim>\<open>isinstance\<close> tests of \<^verbatim>\<open>debug\<close> look at. The
  numeric fields are numbers as above.
\<close>

record DiscreteParameter =
  name :: string
  low :: number
  high :: number
  step_type :: "StepType option"
  step_size :: number
  repr_type :: "DiscreteRepresentationType option"
  is_negative :: bool

text \<open>
  Reading a boolean attribute of the instance by name. \<^verbatim>\<open>__init__\<close> assigns
  \<^verbatim>\<open>is_negative\<close> and no other boolean attribute; a name that was never assigned raises
  \<^verbatim>\<open>AttributeError\<close>.
\<close>

definition getattr_bool :: "DiscreteParameter \<Rightarrow> string \<Rightarrow> error + bool" where
  "getattr_bool self attr =
     (if attr = ''is_negative'' then Inr (is_negative self) else Inl (AttributeError attr))"

subsection \<open>interval_list\<close>

text \<open>
  The \<^verbatim>\<open>while value_cur <= high\<close> loop, with the unpacked fields as arguments and
  \<open>values\<close> as the list built so far. The current value is appended, then stepped; a step
  that raises ends the method with that exception. A step type that is neither member
  leaves \<open>value_cur\<close> as it is. The loop need not end, so it returns an option: \<open>None\<close>
  is a run that never returns.
\<close>

definition step :: "StepType option \<Rightarrow> number \<Rightarrow> number \<Rightarrow> error + number" where
  "step step_type' step_size' value_cur =
     (case step_type' of
        Some ARITHMETIC \<Rightarrow> py_add value_cur step_size'
      | Some GEOMETRIC \<Rightarrow> py_mul value_cur step_size'
      | None \<Rightarrow> Inr value_cur)"

partial_function (option) interval_loop ::
  "number \<Rightarrow> bool \<Rightarrow> StepType option \<Rightarrow> number \<Rightarrow> number list \<Rightarrow> number
     \<Rightarrow> (error + number list) option" where
  "interval_loop high' is_neg step_type' step_size' values value_cur =
     (if py_le value_cur high' then
        (case step step_type' step_size' value_cur of
           Inl e \<Rightarrow> Some (Inl e)
         | Inr value_next \<Rightarrow>
             interval_loop high' is_neg step_type' step_size'
               (values @ [if is_neg then py_neg value_cur else value_cur]) value_next)
      else Some (Inr values))"

declare interval_loop.simps [code]

definition interval_list :: "DiscreteParameter \<Rightarrow> (error + number list) option" where
  "interval_list self =
     interval_loop (high self) (is_negative self) (step_type self) (step_size self) [] (low self)"

subsection \<open>map_to_interval\<close>

text \<open>
  \<open>abs_val\<close> is computed first, and bound only under a recognised step type; the
  arithmetic can raise. The method then reads the attribute \<^verbatim>\<open>is_neg\<close>. The index \<open>n\<close> is
  an \<^verbatim>\<open>int\<close> that is not negative.
\<close>

definition abs_val :: "DiscreteParameter \<Rightarrow> nat \<Rightarrow> error + number option" where
  "abs_val self n =
     (case step_type self of
        Some ARITHMETIC \<Rightarrow>
          (case py_mul (step_size self) (PyInt (int n)) of
             Inl e \<Rightarrow> Inl e
           | Inr p \<Rightarrow> map_sum id Some (py_add (low self) p))
      | Some GEOMETRIC \<Rightarrow>
          (case py_pow (step_size self) n of
             Inl e \<Rightarrow> Inl e
           | Inr p \<Rightarrow> map_sum id Some (py_mul (low self) p))
      | None \<Rightarrow> Inr None)"

definition map_to_interval :: "DiscreteParameter \<Rightarrow> nat \<Rightarrow> error + number" where
  "map_to_interval self n =
     (case abs_val self n of
        Inl e \<Rightarrow> Inl e
      | Inr abs_val' \<Rightarrow>
          (case getattr_bool self ''is_neg'' of
             Inl e \<Rightarrow> Inl e
           | Inr neg \<Rightarrow>
               (case abs_val' of
                  None \<Rightarrow> Inl (NameError ''abs_val'')
                | Some v \<Rightarrow> Inr (if neg then py_neg v else v))))"

subsection \<open>debug\<close>

text \<open>
  The validation of the base class \<^verbatim>\<open>Parameter\<close> runs first; its source is not part of
  this module, so it is the argument \<open>super_debug\<close>. Each \<^verbatim>\<open>raise Warning(...)\<close> of the
  source is one branch, in the source's order.
\<close>

definition debug ::
  "(DiscreteParameter \<Rightarrow> error + unit) \<Rightarrow> DiscreteParameter \<Rightarrow> error + unit" where
  "debug super_debug self =
     (case super_debug self of
        Inl e \<Rightarrow> Inl e
      | Inr _ \<Rightarrow>
          if step_type self = None then
            Inl (Warning ''Parameter constructed with unrecognized step type: '')
          else if repr_type self = None then
            Inl (Warning ''Parameter constructed with unrecognized representation type: '')
          else if py_lt (low self) (PyInt 0) then
            Inl (Warning ''Discrete parameter constructed with negative lower bound. Please make use of the `is_negative` constructor argument. '')
          else if py_ge (low self) (high self) then
            Inl (Warning ''Parameter's lower bound exceeds or is equal to to its upper bound: '')
          else if py_le (step_size self) (PyInt 0) then
            Inl (Warning ''Parameter constructed with step size less than or equal to 0: '')
          else if step_type self = Some GEOMETRIC \<and> py_le (step_size self) (PyInt 1) then
            Inl (Warning ''Parameter has geometric step type and step size <= 1: '')
          else if step_type self = Some GEOMETRIC then
            (if py_eq (low self) (PyInt 0) \<or> py_eq (high self) (PyInt 0) then
               Inl (Warning ''Parameter has geometric step type and a bound of 0 on its interval: '')
             else if (py_lt (low self) (PyInt 0) \<and> py_gt (high self) (PyInt 0))
                   \<or> (py_gt (low self) (PyInt 0) \<and> py_lt (high self) (PyInt 0)) then
               Inl (Warning ''Parameter has geometric step type and its bounds have different sign: '')
             else Inr ())
          else Inr ())"

subsection \<open>max_n\<close>

text \<open>
  The three casts come first and can raise. The result is \<open>Inr (Some n)\<close> for
  \<^verbatim>\<open>return n\<close> and \<open>Inr None\<close> where the method falls off its end (a step type that is
  neither member). In the arithmetic branch \<open>n\<close> is an \<^verbatim>\<open>int\<close>, converted back to a float
  by the product \<^verbatim>\<open>n * step_size\<close>. The geometric branch starts by reading the name
  \<^verbatim>\<open>lower_bound\<close>, which is bound neither in the method nor in the module.
\<close>

definition max_n_arithmetic :: "double \<Rightarrow> double \<Rightarrow> double \<Rightarrow> error + int option" where
  "max_n_arithmetic low' high' step_size' =
     (case float_div (float_sub high' low') step_size' of
        Inl e \<Rightarrow> Inl e
      | Inr q \<Rightarrow>
          (case math_floor q of
             Inl e \<Rightarrow> Inl e
           | Inr n \<Rightarrow>
               (case py_float (PyInt n) of
                  Inl e \<Rightarrow> Inl e
                | Inr n' \<Rightarrow>
                    if float_le (float_add (float_mul n' step_size') low')
                                (float_sub high' step_size')
                    then Inr (Some (n + 1))
                    else Inr (Some n))))"

definition max_n :: "DiscreteParameter \<Rightarrow> error + int option" where
  "max_n self =
     (case py_float (low self) of
        Inl e \<Rightarrow> Inl e
      | Inr low' \<Rightarrow>
          (case py_float (high self) of
             Inl e \<Rightarrow> Inl e
           | Inr high' \<Rightarrow>
               (case py_float (step_size self) of
                  Inl e \<Rightarrow> Inl e
                | Inr step_size' \<Rightarrow>
                    (case step_type self of
                       Some ARITHMETIC \<Rightarrow> max_n_arithmetic low' high' step_size'
                     | Some GEOMETRIC \<Rightarrow> Inl (NameError ''lower_bound'')
                     | None \<Rightarrow> Inr None))))"

section \<open>Vocabulary of the properties\<close>

text \<open>
  The closed form the specification gives for the value at index \<open>k\<close>, before the sign
  is applied, on integers: \<open>low + step_size * k\<close> under arithmetic steps,
  \<open>low * step_size ^ k\<close> under geometric steps.
\<close>

fun magnitude :: "StepType \<Rightarrow> int \<Rightarrow> int \<Rightarrow> nat \<Rightarrow> int" where
  "magnitude ARITHMETIC lo s k = lo + s * int k"
| "magnitude GEOMETRIC lo s k = lo * s ^ k"

text \<open>One step of the loop of \<open>interval_list\<close> on integers, under a recognised step type.\<close>

definition next_value :: "StepType \<Rightarrow> int \<Rightarrow> int \<Rightarrow> int" where
  "next_value st s v = (case st of ARITHMETIC \<Rightarrow> v + s | GEOMETRIC \<Rightarrow> v * s)"

text \<open>
  What makes a step increase the current integer: a positive step size under arithmetic
  steps, a step size above 1 and a positive value under geometric steps.
\<close>

definition steps_ok :: "StepType \<Rightarrow> int \<Rightarrow> int \<Rightarrow> bool" where
  "steps_ok st s cur = (case st of ARITHMETIC \<Rightarrow> 0 < s | GEOMETRIC \<Rightarrow> 1 < s \<and> 0 < cur)"

text \<open>Which exception, if any, a result stands for.\<close>

definition raises_Warning :: "error + 'a \<Rightarrow> bool" where
  "raises_Warning r = (case r of Inl (Warning _) \<Rightarrow> True | _ \<Rightarrow> False)"

definition raises_ValidationError :: "error + 'a \<Rightarrow> bool" where
  "raises_ValidationError r = (case r of Inl (ValidationError _) \<Rightarrow> True | _ \<Rightarrow> False)"

text \<open>A base class validation that accepts every parameter.\<close>

definition base_ok :: "DiscreteParameter \<Rightarrow> error + unit" where
  "base_ok self = Inr ()"

text \<open>The parameters of the specification's scenarios, with the constructor's defaults.\<close>

definition batch :: DiscreteParameter where
  "batch = \<lparr>name = ''batch'', low = PyInt 1, high = PyInt 128, step_type = Some GEOMETRIC,
             step_size = PyInt 2, repr_type = Some DEFAULT, is_negative = False\<rparr>"

definition units :: DiscreteParameter where
  "units = \<lparr>name = ''units'', low = PyInt 32, high = PyInt 512, step_type = Some ARITHMETIC,
             step_size = PyInt 32, repr_type = Some DEFAULT, is_negative = False\<rparr>"

definition thirds :: DiscreteParameter where
  "thirds = \<lparr>name = ''thirds'', low = PyInt 0, high = PyInt 10, step_type = Some ARITHMETIC,
              step_size = PyInt 3, repr_type = Some DEFAULT, is_negative = False\<rparr>"

definition negative_low :: DiscreteParameter where
  "negative_low = \<lparr>name = ''p'', low = PyInt (- 1), high = PyInt 10,
                    step_type = Some ARITHMETIC, step_size = PyInt 1,
                    repr_type = Some DEFAULT, is_negative = False\<rparr>"

definition inverted_bounds :: DiscreteParameter where
  "inverted_bounds = \<lparr>name = ''p'', low = PyInt 5, high = PyInt 3,
                       step_type = Some ARITHMETIC, step_size = PyInt 1,
                       repr_type = Some DEFAULT, is_negative = False\<rparr>"

definition zero_step :: DiscreteParameter where
  "zero_step = \<lparr>name = ''p'', low = PyInt 1, high = PyInt 10, step_type = Some ARITHMETIC,
                 step_size = PyInt 0, repr_type = Some DEFAULT, is_negative = False\<rparr>"

definition geometric_unit_step :: DiscreteParameter where
  "geometric_unit_step = \<lparr>name = ''p'', low = PyInt 1, high = PyInt 8,
                           step_type = Some GEOMETRIC, step_size = PyInt 1,
                           repr_type = Some DEFAULT, is_negative = False\<rparr>"

definition geometric_sign_mismatch :: DiscreteParameter where
  "geometric_sign_mismatch = \<lparr>name = ''p'', low = PyInt (- 4), high = PyInt 8,
                               step_type = Some GEOMETRIC, step_size = PyInt 2,
                               repr_type = Some DEFAULT, is_negative = False\<rparr>"

definition geometric_zero_low :: DiscreteParameter where
  "geometric_zero_low = \<lparr>name = ''p'', low = PyInt 0, high = PyInt 8,
                          step_type = Some GEOMETRIC, step_size = PyInt 2,
                          repr_type = Some DEFAULT, is_negative = False\<rparr>"

text \<open>The parameter \<open>units\<close> constructed with \<^verbatim>\<open>is_negative=True\<close>.\<close>

definition negative_units :: DiscreteParameter where
  "negative_units = \<lparr>name = ''units'', low = PyInt 32, high = PyInt 512,
                      step_type = Some ARITHMETIC, step_size = PyInt 32,
                      repr_type = Some DEFAULT, is_negative = True\<rparr>"

text \<open>
  A valid arithmetic parameter whose integer bounds lie above \<open>2 ^ 53\<close>, where consecutive
  integers are no longer separate doubles: low \<open>2 ^ 53\<close>, high \<open>2 ^ 53 + 3\<close>, step size 1.
\<close>

definition beyond_double :: DiscreteParameter where
  "beyond_double = \<lparr>name = ''p'', low = PyInt 9007199254740992,
                     high = PyInt 9007199254740995, step_type = Some ARITHMETIC,
                     step_size = PyInt 1, repr_type = Some DEFAULT, is_negative = False\<rparr>"

text \<open>
  A valid arithmetic parameter with float bounds \<^verbatim>\<open>low=2.0**53\<close> and \<^verbatim>\<open>high=2.0**53+2\<close>
  and the default step size 1.
\<close>

definition absorbed_step :: DiscreteParameter where
  "absorbed_step = \<lparr>name = ''p'', low = PyFloat (Finite 9007199254740992),
                     high = PyFloat (Finite 9007199254740994), step_type = Some ARITHMETIC,
                     step_size = PyInt 1, repr_type = Some DEFAULT, is_negative = False\<rparr>"

text \<open>A valid geometric parameter with the float step size \<^verbatim>\<open>2.0\<close>.\<close>

definition float_step :: DiscreteParameter where
  "float_step = \<lparr>name = ''p'', low = PyInt 1, high = PyInt 8, step_type = Some GEOMETRIC,
                  step_size = PyFloat (Finite 2), repr_type = Some DEFAULT,
                  is_negative = False\<rparr>"

text \<open>A valid arithmetic parameter with the float step size \<^verbatim>\<open>0.5\<close>.\<close>

definition half_step :: DiscreteParameter where
  "half_step = \<lparr>name = ''p'', low = PyInt 0, high = PyInt 10, step_type = Some ARITHMETIC,
                 step_size = PyFloat (Finite (1 / 2)), repr_type = Some DEFAULT,
                 is_negative = False\<rparr>"

section \<open>Comparisons\<close>

lemma py_lt_PyInt [simp]: "py_lt (PyInt a) (PyInt b) = (a < b)"
  by (simp add: py_lt_def)

lemma py_le_PyInt [simp]: "py_le (PyInt a) (PyInt b) = (a \<le> b)"
  by (auto simp add: py_le_def float_le_def)

lemma py_eq_PyInt [simp]: "py_eq (PyInt a) (PyInt b) = (a = b)"
  by (simp add: py_eq_def)

lemma float_lt_not_le: "float_lt b a \<Longrightarrow> \<not> float_le a b"
  by (cases a; cases b) (auto simp add: float_le_def)

section \<open>The loop of interval_list on integers\<close>

lemma magnitude_Suc: "magnitude st cur s (Suc k) = magnitude st (next_value st s cur) s k"
  by (cases st) (simp_all add: next_value_def algebra_simps)

lemma magnitude_0: "magnitude st cur s 0 = cur"
  by (cases st) simp_all

lemma next_value_greater: "steps_ok st s cur \<Longrightarrow> cur < next_value st s cur"
proof (cases st)
  case ARITHMETIC
  assume "steps_ok st s cur"
  with ARITHMETIC show ?thesis by (simp add: steps_ok_def next_value_def)
next
  case GEOMETRIC
  assume "steps_ok st s cur"
  with GEOMETRIC have s: "2 \<le> s" and c: "0 < cur" by (simp_all add: steps_ok_def)
  have "cur * 2 \<le> cur * s" using s c by (intro mult_left_mono) simp_all
  with c GEOMETRIC show ?thesis by (simp add: next_value_def)
qed

lemma next_value_ok: "steps_ok st s cur \<Longrightarrow> steps_ok st s (next_value st s cur)"
  by (cases st) (simp_all add: steps_ok_def next_value_def)

lemma step_PyInt: "step (Some st) (PyInt s) (PyInt cur) = Inr (PyInt (next_value st s cur))"
  by (cases st) (simp_all add: step_def next_value_def)

lemma interval_loop_step:
  "cur \<le> h \<Longrightarrow> interval_loop (PyInt h) neg (Some st) (PyInt s) values (PyInt cur) =
     interval_loop (PyInt h) neg (Some st) (PyInt s)
       (values @ [PyInt (if neg then - cur else cur)]) (PyInt (next_value st s cur))"
  by (subst interval_loop.simps) (simp add: step_PyInt)

lemma interval_loop_stop:
  "\<not> py_le cur h \<Longrightarrow> interval_loop h neg st s values cur = Some (Inr values)"
  by (subst interval_loop.simps) simp

lemma interval_loop_closed_form:
  "steps_ok st s cur \<Longrightarrow>
   \<exists>N. (\<forall>neg values. interval_loop (PyInt h) neg (Some st) (PyInt s) values (PyInt cur) =
            Some (Inr (values @ map (\<lambda>k. PyInt (if neg then - magnitude st cur s k
                                                else magnitude st cur s k)) [0..<N])))
      \<and> (\<forall>k<N. magnitude st cur s k \<le> h) \<and> h < magnitude st cur s N"
proof (induction "nat (h - cur + 1)" arbitrary: cur rule: less_induct)
  case less
  show ?case
  proof (cases "cur \<le> h")
    case False
    then have "h < cur" by simp
    then show ?thesis
      by (intro exI [of _ 0]) (simp add: interval_loop_stop magnitude_0)
  next
    case True
    let ?nx = "next_value st s cur"
    have gt: "cur < ?nx" using less.prems by (rule next_value_greater)
    have ok: "steps_ok st s ?nx" using less.prems by (rule next_value_ok)
    have "nat (h - ?nx + 1) < nat (h - cur + 1)" using gt True by simp
    from less.hyps [OF this ok] obtain N where
      run: "\<And>neg values. interval_loop (PyInt h) neg (Some st) (PyInt s) values (PyInt ?nx) =
              Some (Inr (values @ map (\<lambda>k. PyInt (if neg then - magnitude st ?nx s k
                                                  else magnitude st ?nx s k)) [0..<N]))"
      and below: "\<And>k. k < N \<Longrightarrow> magnitude st ?nx s k \<le> h"
      and above: "h < magnitude st ?nx s N"
      by blast
    have upt: "[0..<Suc N] = 0 # map Suc [0..<N]"
      by (simp add: upt_conv_Cons map_Suc_upt del: upt_Suc)
    have "\<forall>neg values. interval_loop (PyInt h) neg (Some st) (PyInt s) values (PyInt cur) =
            Some (Inr (values @ map (\<lambda>k. PyInt (if neg then - magnitude st cur s k
                                                else magnitude st cur s k)) [0..<Suc N]))"
      unfolding upt
      by (simp add: interval_loop_step [OF True] run magnitude_Suc magnitude_0 comp_def del: upt_Suc)
    moreover have "\<forall>k<Suc N. magnitude st cur s k \<le> h"
    proof (intro allI impI)
      fix k assume "k < Suc N"
      then show "magnitude st cur s k \<le> h"
        using True below by (cases k) (simp_all add: magnitude_0 magnitude_Suc)
    qed
    moreover have "h < magnitude st cur s (Suc N)"
      using above by (simp add: magnitude_Suc)
    ultimately show ?thesis by blast
  qed
qed

text \<open>
  A current value that the step leaves as it is, and that is not above \<open>high\<close>: the loop
  never returns.
\<close>

lemma interval_loop_stuck:
  assumes le: "py_le cur h" and st: "step st s cur = Inr cur"
  shows "interval_loop h neg st s values cur = None"
proof (rule ccontr)
  assume "interval_loop h neg st s values cur \<noteq> None"
  then obtain y where y: "interval_loop h neg st s values cur = Some y" by auto
  have "\<not> (h = h \<and> st = st \<and> s = s \<and> cur = cur)"
  proof (rule interval_loop.raw_induct
      [where P = "\<lambda>h' neg' st' s' values' cur' y'. \<not> (h' = h \<and> st' = st \<and> s' = s \<and> cur' = cur)",
       OF _ y])
    fix f h' neg' st' s' values' cur' y'
    assume IH: "\<And>h' neg' st' s' values' cur' y'.
                  f h' neg' st' s' values' cur' = Some y'
                  \<Longrightarrow> \<not> (h' = h \<and> st' = st \<and> s' = s \<and> cur' = cur)"
      and run: "(if py_le cur' h'
                 then case step st' s' cur' of
                        Inl e \<Rightarrow> Some (Inl e)
                      | Inr value_next \<Rightarrow>
                          f h' neg' st' s' (values' @ [if neg' then py_neg cur' else cur'])
                            value_next
                 else Some (Inr values')) = Some y'"
    show "\<not> (h' = h \<and> st' = st \<and> s' = s \<and> cur' = cur)"
    proof
      assume eq: "h' = h \<and> st' = st \<and> s' = s \<and> cur' = cur"
      with run le st
      have "f h neg' st s (values' @ [if neg' then py_neg cur' else cur']) cur = Some y'"
        by (simp split del: if_split)
      from IH [OF this] show False by simp
    qed
  qed
  then show False by simp
qed

section \<open>debug\<close>

lemma debug_accepts:
  assumes "debug super_debug self = Inr ()"
    and "low self = PyInt l" and "high self = PyInt h" and "step_size self = PyInt s"
  shows "\<exists>st. step_type self = Some st \<and> steps_ok st s l"
    and "0 \<le> l" and "l < h" and "0 < s"
proof -
  from assms(1) have sd: "super_debug self = Inr ()"
    by (simp add: debug_def split: sum.splits if_splits)
  from assms sd have a: "step_type self \<noteq> None" "\<not> l < 0" "\<not> h \<le> l"
    "\<not> s \<le> 0"
    "\<not> (step_type self = Some GEOMETRIC \<and> s \<le> 1)"
    "step_type self = Some GEOMETRIC \<longrightarrow> l \<noteq> 0"
    by (simp_all add: debug_def py_ge_def py_gt_def split: if_splits)
  from a show "0 \<le> l" "l < h" "0 < s" by simp_all
  from a obtain st where st: "step_type self = Some st" by blast
  with a have "steps_ok st s l"
    by (cases st) (simp_all add: steps_ok_def)
  with st show "\<exists>st. step_type self = Some st \<and> steps_ok st s l"
    by blast
qed

lemma debug_base_ok_units: "debug base_ok units = Inr ()"
  by (simp add: debug_def base_ok_def units_def py_ge_def)

lemma debug_base_ok_batch: "debug base_ok batch = Inr ()"
  by (simp add: debug_def base_ok_def batch_def py_ge_def py_gt_def)

section \<open>Which exceptions the arithmetic raises\<close>

lemma int_to_double_error: "int_to_double i = Inl e \<Longrightarrow> e = OverflowError"
  by (simp add: int_to_double_def Let_def split: if_splits)

lemma py_float_error: "py_float x = Inl e \<Longrightarrow> e = OverflowError"
  by (cases x) (auto simp add: py_float_def dest: int_to_double_error split: sum.splits)

lemma float_op_error: "float_op f a b = Inl e \<Longrightarrow> e = OverflowError"
  by (auto simp add: float_op_def dest: py_float_error split: sum.splits)

lemma py_add_error: "py_add a b = Inl e \<Longrightarrow> e = OverflowError"
  by (cases a; cases b) (auto dest: float_op_error)

lemma py_mul_error: "py_mul a b = Inl e \<Longrightarrow> e = OverflowError"
  by (cases a; cases b) (auto dest: float_op_error)

lemma float_pow_error: "float_pow v k = Inl e \<Longrightarrow> e = OverflowError"
  by (cases v) (auto simp add: float_pow_def split: if_splits double.splits)

lemma py_pow_error: "py_pow a n = Inl e \<Longrightarrow> e = OverflowError"
  by (cases a)
     (auto simp add: py_pow_def map_sum_def dest: int_to_double_error float_pow_error
           split: sum.splits)

lemma abs_val_error: "abs_val self n = Inl e \<Longrightarrow> e = OverflowError"
  by (auto simp add: abs_val_def map_sum_def dest: py_mul_error py_add_error py_pow_error
           split: option.splits StepType.splits sum.splits)

lemma abs_val_PyInt:
  "low self = PyInt l \<Longrightarrow> step_size self = PyInt s \<Longrightarrow> \<exists>v. abs_val self n = Inr v"
  by (simp add: abs_val_def py_pow_def split: option.splits StepType.splits)

section \<open>Double arithmetic\<close>

lemma round_half_even_of_int: "round_half_even (of_int k) = k"
  by (simp add: round_half_even_def)

lemma round_half_even_error: "\<bar>of_int (round_half_even y) - y\<bar> \<le> 1 / 2"
proof -
  have "of_int \<lfloor>y\<rfloor> \<le> y" "y < of_int \<lfloor>y\<rfloor> + 1" by linarith+
  then show ?thesis
    by (auto simp add: round_half_even_def Let_def)
qed

lemma ilog2_bounds:
  assumes "0 < x"
  shows "2 powi ilog2 x \<le> x" and "x < 2 powi (ilog2 x + 1)"
proof -
  have "2 powi ilog2 x \<le> x \<and> x < 2 powi (ilog2 x + 1)"
  proof (cases "1 \<le> x")
    case True
    let ?m = "\<lfloor>x\<rfloor>"
    have m: "0 < ?m" using True by linarith
    from bitlen_bounds [OF m] have lo: "2 ^ nat (bitlen ?m - 1) \<le> ?m"
      and hi: "?m < 2 ^ nat (bitlen ?m)" by simp_all
    have b1: "1 \<le> bitlen ?m" using m bitlen_eq_zero_iff [of ?m] bitlen_nonneg [of ?m] by linarith
    have e: "ilog2 x = bitlen ?m - 1" using True by (simp add: ilog2_def)
    have "(2::rat) powi (bitlen ?m - 1) = 2 ^ nat (bitlen ?m - 1)"
      using b1 by (simp add: power_int_def)
    also have "\<dots> = of_int (2 ^ nat (bitlen ?m - 1))" by simp
    also have "\<dots> \<le> of_int ?m" using lo by (simp only: of_int_le_iff)
    also have "\<dots> \<le> x" by linarith
    finally have A: "2 powi ilog2 x \<le> x" by (simp add: e)
    have "?m + 1 \<le> 2 ^ nat (bitlen ?m)" using hi by linarith
    then have "(of_int (?m + 1) :: rat) \<le> of_int (2 ^ nat (bitlen ?m))"
      by (simp only: of_int_le_iff)
    moreover have "x < of_int (?m + 1)" by linarith
    ultimately have "x < of_int (2 ^ nat (bitlen ?m))" by linarith
    also have "\<dots> = 2 powi (bitlen ?m)" using b1 by (simp add: power_int_def)
    finally have "x < 2 powi (ilog2 x + 1)" by (simp add: e)
    with A show ?thesis by simp
  next
    case False
    then have x1: "x < 1" by simp
    let ?y = "1 / x"
    let ?m = "\<lfloor>?y\<rfloor>"
    let ?k = "bitlen ?m"
    have y1: "1 < ?y" using assms x1 by (simp add: field_simps)
    have m: "0 < ?m" using y1 by linarith
    from bitlen_bounds [OF m] have lo: "2 ^ nat (?k - 1) \<le> ?m"
      and hi: "?m < 2 ^ nat ?k" by simp_all
    have b1: "1 \<le> ?k" using m bitlen_eq_zero_iff [of ?m] bitlen_nonneg [of ?m] by linarith
    have "(of_int (2 ^ nat (?k - 1)) :: rat) \<le> of_int ?m" using lo by (simp only: of_int_le_iff)
    also have "\<dots> \<le> ?y" by linarith
    finally have ylo: "2 ^ nat (?k - 1) \<le> ?y" by simp
    have "?m + 1 \<le> 2 ^ nat ?k" using hi by linarith
    then have "(of_int (?m + 1) :: rat) \<le> of_int (2 ^ nat ?k)" by (simp only: of_int_le_iff)
    moreover have "?y < of_int (?m + 1)" by linarith
    ultimately have yhi: "?y < 2 ^ nat ?k" by simp
    have xlo: "1 / 2 ^ nat ?k < x"
      using yhi assms by (simp add: field_simps)
    have xhi: "x \<le> 1 / 2 ^ nat (?k - 1)"
      using ylo assms by (simp add: field_simps)
    have pk: "(2::rat) powi (- ?k) = 1 / 2 ^ nat ?k"
      using b1 by (simp add: power_int_def field_simps)
    have pk1: "(2::rat) powi (1 - ?k) = 1 / 2 ^ nat (?k - 1)"
      using b1 by (simp add: power_int_def field_simps nat_diff_distrib)
    have pk2: "(2::rat) powi (2 - ?k) = 2 / 2 ^ nat (?k - 1)"
      using power_int_add_1' [of "2::rat" "1 - ?k"] pk1 by (simp add: algebra_simps)
    show ?thesis
    proof (cases "1 \<le> x * 2 ^ nat (?k - 1)")
      case True
      then have e: "ilog2 x = 1 - ?k" using x1 by (simp add: ilog2_def Let_def)
      from True have "1 / 2 ^ nat (?k - 1) \<le> x" by (simp add: field_simps)
      moreover have "x < 2 / 2 ^ nat (?k - 1)"
      proof -
        have "(1::rat) / 2 ^ nat (?k - 1) < 2 / 2 ^ nat (?k - 1)"
          by (intro divide_strict_right_mono) simp_all
        with xhi show ?thesis by linarith
      qed
      ultimately have "2 powi (1 - ?k) \<le> x \<and> x < 2 powi (2 - ?k)"
        by (simp only: pk1 pk2)
      moreover have "ilog2 x + 1 = 2 - ?k" using e by simp
      ultimately show ?thesis using e by simp
    next
      case False
      then have e: "ilog2 x = - ?k" using x1 by (simp add: ilog2_def Let_def)
      from False have "x < 1 / 2 ^ nat (?k - 1)" by (simp add: field_simps)
      with xlo have "2 powi (- ?k) \<le> x \<and> x < 2 powi (1 - ?k)"
        by (simp only: pk pk1) simp
      moreover have "ilog2 x + 1 = 1 - ?k" using e by simp
      ultimately show ?thesis using e by simp
    qed
  qed
  then show "2 powi ilog2 x \<le> x" and "x < 2 powi (ilog2 x + 1)" by simp_all
qed

lemma round_half_even_ge_floor: "\<lfloor>y\<rfloor> \<le> round_half_even y"
  by (simp add: round_half_even_def Let_def)

lemma round_half_even_nonneg: "0 \<le> y \<Longrightarrow> 0 \<le> round_half_even y"
proof -
  assume "0 \<le> y"
  then have "0 \<le> \<lfloor>y\<rfloor>" by simp
  with round_half_even_ge_floor [of y] show ?thesis by linarith
qed

lemma round_double_unfold:
  "x \<noteq> 0 \<Longrightarrow>
   round_double x =
     of_int (round_half_even (x / 2 powi (max (ilog2 \<bar>x\<bar>) (- 1022) - 52)))
       * 2 powi (max (ilog2 \<bar>x\<bar>) (- 1022) - 52)"
  by (simp add: round_double_def Let_def)

lemma round_double_0: "round_double 0 = 0"
  by (simp add: round_double_def)

lemma round_double_abs_error:
  assumes "x \<noteq> 0"
  shows "\<bar>round_double x - x\<bar> \<le> 2 powi (max (ilog2 \<bar>x\<bar>) (- 1022) - 52) / 2"
proof -
  define u :: rat where "u = 2 powi (max (ilog2 \<bar>x\<bar>) (- 1022) - 52)"
  have u: "0 < u" by (simp add: u_def)
  have rd: "round_double x = of_int (round_half_even (x / u)) * u"
    using round_double_unfold [OF assms] by (simp only: u_def)
  have "round_double x - x = (of_int (round_half_even (x / u)) - x / u) * u"
    using u by (simp add: rd algebra_simps)
  then have "\<bar>round_double x - x\<bar> = \<bar>of_int (round_half_even (x / u)) - x / u\<bar> * u"
    using u by (simp add: abs_mult)
  also have "\<dots> \<le> (1 / 2) * u"
    using round_half_even_error [of "x / u"] u by (intro mult_right_mono) simp_all
  finally show ?thesis by (simp add: u_def)
qed

lemma ilog2_ge:
  assumes "0 < x" and "2 powi k \<le> x"
  shows "k \<le> ilog2 x"
proof (rule ccontr)
  assume "\<not> k \<le> ilog2 x"
  then have "ilog2 x + 1 \<le> k" by simp
  then have "(2::rat) powi (ilog2 x + 1) \<le> 2 powi k" by (intro power_int_increasing) simp_all
  with ilog2_bounds(2) [OF assms(1)] assms(2) show False by linarith
qed

lemma ilog2_less:
  assumes "0 < x" and "x < 2 powi k"
  shows "ilog2 x < k"
proof (rule ccontr)
  assume "\<not> ilog2 x < k"
  then have "k \<le> ilog2 x" by simp
  then have "(2::rat) powi k \<le> 2 powi ilog2 x" by (intro power_int_increasing) simp_all
  with ilog2_bounds(1) [OF assms(1)] assms(2) show False by linarith
qed

text \<open>In the normal range the error is relative.\<close>

lemma round_double_error:
  assumes "2 powi (- 1022) \<le> \<bar>x\<bar>"
  shows "\<bar>round_double x - x\<bar> \<le> \<bar>x\<bar> / 2 ^ 53"
proof -
  have "(0::rat) < 2 powi (- 1022)" by simp
  with assms have ax: "0 < \<bar>x\<bar>" by linarith
  then have x0: "x \<noteq> 0" by simp
  define e where "e = ilog2 \<bar>x\<bar>"
  have "- 1022 \<le> e" unfolding e_def using ax assms by (rule ilog2_ge)
  then have m: "max e (- 1022) = e" by simp
  have "\<bar>round_double x - x\<bar> \<le> 2 powi (e - 52) / 2"
    using round_double_abs_error [OF x0] by (simp only: m flip: e_def)
  also have "\<dots> = 2 powi e / 2 ^ 53"
    by (simp add: power_int_diff)
  also have "\<dots> \<le> \<bar>x\<bar> / 2 ^ 53"
    using ilog2_bounds(1) [OF ax] by (intro divide_right_mono) (simp_all add: e_def)
  finally show ?thesis .
qed

lemma normal_range: "1 / 2 ^ 53 \<le> \<bar>x\<bar> \<Longrightarrow> 2 powi (- 1022) \<le> \<bar>x::rat\<bar>"
proof -
  assume a: "1 / 2 ^ 53 \<le> \<bar>x\<bar>"
  have "(2::rat) powi (- 1022) \<le> 2 powi (- 53)" by (intro power_int_increasing) simp_all
  also have "\<dots> = 1 / 2 ^ 53" by (simp add: power_int_minus field_simps)
  finally show ?thesis using a by linarith
qed

lemma round_double_of_int:
  assumes "\<bar>k\<bar> < 2 ^ 53"
  shows "round_double (of_int k) = of_int k"
proof (cases "k = 0")
  case True
  then show ?thesis by (simp add: round_double_def)
next
  case False
  define x :: rat where "x = of_int k"
  define e where "e = ilog2 \<bar>x\<bar>"
  have ax1: "1 \<le> \<bar>x\<bar>" using False unfolding x_def by (simp add: flip: of_int_abs)
  then have ax: "0 < \<bar>x\<bar>" by linarith
  have "\<bar>x\<bar> = of_int \<bar>k\<bar>" by (simp add: x_def)
  also have "\<dots> < of_int (2 ^ 53)" using assms by (simp only: of_int_less_iff)
  finally have ax53: "\<bar>x\<bar> < 2 powi 53" by simp
  have "e < 53" unfolding e_def using ax ax53 by (rule ilog2_less)
  then have e52: "e \<le> 52" by simp
  have "(2::rat) powi 0 \<le> \<bar>x\<bar>" using ax1 by simp
  with ax have e0: "0 \<le> e" unfolding e_def by (rule ilog2_ge)
  then have m: "max e (- 1022) = e" by simp
  define j where "j = nat (52 - e)"
  have xne: "x \<noteq> 0" using ax by auto
  have u: "(2::rat) powi (e - 52) = 1 / 2 ^ j"
    using e52 by (simp add: power_int_def j_def field_simps)
  have rd: "round_double x = of_int (round_half_even (x / (1 / 2 ^ j))) * (1 / 2 ^ j)"
    using round_double_unfold [OF xne] by (simp only: m u flip: e_def)
  have "x / (1 / 2 ^ j) = of_int (k * 2 ^ j)" by (simp add: x_def)
  then have "round_half_even (x / (1 / 2 ^ j)) = k * 2 ^ j"
    by (simp only: round_half_even_of_int)
  then have "round_double x = of_int (k * 2 ^ j) * (1 / 2 ^ j)"
    by (simp only: rd)
  then show ?thesis by (simp add: x_def)
qed

lemma round_double_ge_2_53:
  assumes "2 ^ 53 \<le> x"
  shows "2 ^ 53 \<le> round_double x"
proof -
  have "(0::rat) < 2 ^ 53" by simp
  with assms have x0: "0 < x" by linarith
  then have ax: "\<bar>x\<bar> = x" by simp
  define e where "e = ilog2 x"
  have "(2::rat) powi 53 \<le> x" using assms by simp
  with x0 have e53: "53 \<le> e" unfolding e_def by (rule ilog2_ge)
  then have m: "max e (- 1022) = e" by simp
  define u :: rat where "u = 2 powi (e - 52)"
  have u: "0 < u" by (simp add: u_def)
  have pe: "(2::rat) powi e = 2 ^ 52 * u"
    using power_int_add [of "2::rat" "e - 52" 52] by (simp add: u_def)
  have xne: "x \<noteq> 0" using x0 by simp
  have rd: "round_double x = of_int (round_half_even (x / u)) * u"
    using round_double_unfold [OF xne] by (simp only: ax m u_def flip: e_def)
  have "2 powi e \<le> x" using ilog2_bounds(1) [OF x0] by (simp only: e_def)
  then have "2 ^ 52 * u \<le> x" by (simp only: pe)
  then have "of_int (2 ^ 52) \<le> x / u" using u by (simp add: field_simps)
  then have "2 ^ 52 \<le> \<lfloor>x / u\<rfloor>" by (simp only: le_floor_iff)
  then have "2 ^ 52 \<le> round_half_even (x / u)"
    using round_half_even_ge_floor [of "x / u"] by linarith
  then have "(of_int (2 ^ 52) :: rat) \<le> of_int (round_half_even (x / u))"
    by (simp only: of_int_le_iff)
  then have "of_int (2 ^ 52) * u \<le> of_int (round_half_even (x / u)) * u"
    using u by (intro mult_right_mono) simp_all
  then have "2 powi e \<le> round_double x" by (simp add: pe rd)
  moreover have "(2::rat) powi 53 \<le> 2 powi e"
    using e53 by (intro power_int_increasing) simp_all
  ultimately have "(2::rat) powi 53 \<le> round_double x" by linarith
  then show ?thesis by simp
qed

lemma round_double_nonneg: "0 \<le> x \<Longrightarrow> 0 \<le> round_double x"
proof (cases "x = 0")
  case True
  then show ?thesis by (simp add: round_double_def)
next
  case False
  assume "0 \<le> x"
  define u :: rat where "u = 2 powi (max (ilog2 \<bar>x\<bar>) (- 1022) - 52)"
  have u: "0 < u" by (simp add: u_def)
  have "0 \<le> x / u" using \<open>0 \<le> x\<close> u by simp
  then have "0 \<le> round_half_even (x / u)" by (rule round_half_even_nonneg)
  then have "(0::rat) \<le> of_int (round_half_even (x / u)) * u" using u by simp
  then show ?thesis using round_double_unfold [OF False] by (simp only: u_def)
qed

lemma round_double_less_1:
  assumes q0: "0 < q" and q_le: "q \<le> (2 ^ 53 - 1) / 2 ^ 53"
  shows "round_double q < 1"
proof -
  have "(2 ^ 53 - 1) / 2 ^ 53 < (1::rat)" by simp
  with q_le have "q < 2 powi 0" by simp
  with q0 have "ilog2 q < 0" by (rule ilog2_less)
  then have "max (ilog2 q) (- 1022) - 52 \<le> - 53" by simp
  then have "(2::rat) powi (max (ilog2 q) (- 1022) - 52) \<le> 2 powi (- 53)"
    by (intro power_int_increasing) simp_all
  also have "\<dots> = 1 / 2 ^ 53" by (simp add: power_int_minus field_simps)
  finally have u: "(2::rat) powi (max (ilog2 q) (- 1022) - 52) / 2 \<le> 1 / 2 ^ 53 / 2"
    by (intro divide_right_mono) simp_all
  have aq: "\<bar>q\<bar> = q" using q0 by simp
  have qn: "q \<noteq> 0" using q0 by simp
  have "\<bar>round_double q - q\<bar> \<le> 2 powi (max (ilog2 q) (- 1022) - 52) / 2"
    using round_double_abs_error [OF qn] by (simp only: aq)
  with u have e: "\<bar>round_double q - q\<bar> \<le> 1 / 2 ^ 53 / 2" by linarith
  have "(2 ^ 53 - 1) / 2 ^ 53 + 1 / 2 ^ 53 / 2 < (1::rat)" by simp
  with e q_le show ?thesis by linarith
qed

lemma round_double_neg: "x \<le> - 1 \<Longrightarrow> round_double x < 0"
proof -
  assume x: "x \<le> - 1"
  then have ax: "\<bar>x\<bar> = - x" by simp
  have "1 / 2 ^ 53 \<le> \<bar>x\<bar>" using x by (simp add: ax)
  then have "2 powi (- 1022) \<le> \<bar>x\<bar>" by (rule normal_range)
  then have "\<bar>round_double x - x\<bar> \<le> (- x) / 2 ^ 53"
    using round_double_error [of x] by (simp only: ax)
  moreover have "(- x) / 2 ^ 53 < - x" using x by (simp add: field_simps)
  ultimately show ?thesis by linarith
qed

text \<open>
  The floor of the rounded quotient of two integers below \<open>2 ^ 53\<close> is their integer
  quotient: the exact quotient is at least \<open>1 / b\<close> away from the next integer unless it
  is one, and the rounding error is smaller than that.
\<close>

lemma floor_round_double_div:
  assumes a0: "0 \<le> a" and a53: "a < 2 ^ 53" and b0: "0 < b" and b53: "b < 2 ^ 53"
  shows "\<lfloor>round_double (of_int a / of_int b)\<rfloor> = a div b"
proof -
  define n where "n = a div b"
  define r where "r = a mod b"
  define q :: rat where "q = of_int a / of_int b"
  have a_eq: "a = n * b + r" by (simp add: n_def r_def)
  have r0: "0 \<le> r" and rb: "r < b" using b0 by (simp_all add: r_def)
  have n0: "0 \<le> n" using a0 b0 by (simp add: n_def pos_imp_zdiv_nonneg_iff)
  have bq: "(0::rat) < of_int b" using b0 by simp
  have q_eq: "q = of_int n + of_int r / of_int b"
    using bq by (simp add: q_def a_eq field_simps)
  show ?thesis
  proof (cases "r = 0")
    case True
    then have "q = of_int n" by (simp add: q_eq)
    moreover have "n * 1 \<le> n * b" using n0 b0 by (intro mult_left_mono) simp_all
    then have "n \<le> a" using a_eq True by simp
    then have "\<bar>n\<bar> < 2 ^ 53" using n0 a53 by simp
    ultimately have "round_double q = of_int n" by (simp add: round_double_of_int)
    then show ?thesis by (simp add: q_def n_def)
  next
    case False
    then have r1: "1 \<le> r" using r0 by simp
    have br1: "1 \<le> b - r" using rb by simp
    have q0: "0 < q" using r1 n0 bq by (simp add: q_eq add_nonneg_pos)
    have "1 / of_int b \<le> (of_int r :: rat) / of_int b"
      using r1 bq by (simp add: divide_right_mono)
    then have lo: "of_int n + 1 / of_int b \<le> q" by (simp add: q_eq)
    have "of_int b < (2::rat) ^ 53"
      using b53 by (metis of_int_less_iff of_int_numeral of_int_power)
    then have "1 / 2 ^ 53 \<le> 1 / (of_int b :: rat)"
      using bq by (intro divide_left_mono) simp_all
    moreover have "(0::rat) \<le> of_int n" using n0 by simp
    ultimately have "1 / 2 ^ 53 \<le> \<bar>q\<bar>" using lo q0 by linarith
    then have "2 powi (- 1022) \<le> \<bar>q\<bar>" by (rule normal_range)
    then have err: "\<bar>round_double q - q\<bar> \<le> q / 2 ^ 53"
      using round_double_error [of q] q0 by simp
    have "of_int a < (2::rat) ^ 53"
      using a53 by (metis of_int_less_iff of_int_numeral of_int_power)
    then have "of_int a / of_int b < (2::rat) ^ 53 / of_int b"
      using bq by (simp add: divide_strict_right_mono)
    then have small: "q / 2 ^ 53 < 1 / of_int b"
      using bq by (simp add: q_def field_simps)
    have "(1::rat) / of_int b \<le> of_int (b - r) / of_int b"
      using br1 bq by (intro divide_right_mono) (simp_all flip: of_int_diff)
    also have "\<dots> = 1 - of_int r / of_int b"
      using bq by (simp add: field_simps)
    finally have hi: "q + 1 / of_int b \<le> of_int n + 1" by (simp add: q_eq)
    have "of_int n < round_double q" using err small lo by linarith
    moreover have "round_double q < of_int n + 1" using err small hi by linarith
    ultimately have "\<lfloor>round_double q\<rfloor> = n" by (simp add: floor_unique)
    then show ?thesis by (simp add: q_def n_def)
  qed
qed

text \<open>Results in range, and the conversion of an integer below \<open>2 ^ 53\<close>.\<close>

lemma to_double_Finite:
  "- (2 ^ 1024) < round_double x \<Longrightarrow> round_double x < 2 ^ 1024
     \<Longrightarrow> to_double x = Finite (round_double x)"
  by (simp add: to_double_def Let_def)

lemma to_double_of_int:
  assumes "\<bar>k\<bar> < 2 ^ 53"
  shows "to_double (of_int k) = Finite (of_int k)"
proof -
  have r: "round_double (of_int k) = of_int k" using assms by (rule round_double_of_int)
  have "\<bar>k\<bar> < 2 ^ 1024" using assms by simp
  then have "- (2 ^ 1024) < k" and "k < 2 ^ 1024" by simp_all
  then have "- (2 ^ 1024) < (of_int k :: rat)" and "(of_int k :: rat) < 2 ^ 1024"
    by (metis of_int_less_iff of_int_numeral of_int_power of_int_minus)+
  then show ?thesis by (simp add: to_double_def r)
qed

lemma py_float_exact:
  assumes "\<bar>k\<bar> < 2 ^ 53"
  shows "py_float (PyInt k) = Inr (Finite (of_int k))"
proof -
  have r: "round_double (of_int k) = of_int k" using assms by (rule round_double_of_int)
  have "\<bar>k\<bar> < 2 ^ 1024" using assms by simp
  then have "\<bar>of_int k :: rat\<bar> < 2 ^ 1024"
    by (metis of_int_abs of_int_less_iff of_int_numeral of_int_power)
  then show ?thesis by (simp add: py_float_def int_to_double_def r)
qed

lemma to_double_negative:
  assumes "round_double x < 0" and "0 \<le> y"
  shows "\<not> float_le (Finite y) (to_double x)"
  using assms by (simp add: to_double_def Let_def float_le_def)

lemma float_le_Finite [simp]: "float_le (Finite x) (Finite y) = (x \<le> y)"
  by (auto simp add: float_le_def)

section \<open>max_n under arithmetic steps\<close>

text \<open>
  For an arithmetic parameter with integer fields, \<open>0 \<le> low < high < 2 ^ 53\<close> and a positive
  step size that converts to a float, \<open>max_n\<close> returns the integer quotient of
  \<open>high - low\<close> by the step size; the test that would add one never succeeds there.
\<close>

lemma max_n_on_integers:
  assumes st: "step_type self = Some ARITHMETIC"
    and lo: "low self = PyInt l" and hi: "high self = PyInt h" and ss: "step_size self = PyInt s"
    and lo0: "0 \<le> l" and lohi: "l < h" and hi53: "h < 2 ^ 53" and s0: "0 < s"
    and sf: "py_float (PyInt s) \<noteq> Inl OverflowError"
  shows "max_n self = Inr (Some ((h - l) div s))"
proof -
  let ?a = "h - l"
  let ?n = "?a div s"
  define s' where "s' = round_double (of_int s)"
  have a0: "0 < ?a" and a53: "?a < 2 ^ 53" using lo0 lohi hi53 by simp_all
  have flo: "py_float (PyInt l) = Inr (Finite (of_int l))"
    using lo0 lohi hi53 by (intro py_float_exact) simp
  have fhi: "py_float (PyInt h) = Inr (Finite (of_int h))"
    using lo0 lohi hi53 by (intro py_float_exact) simp
  have fs: "py_float (PyInt s) = Inr (Finite s')"
    using sf by (simp add: py_float_def int_to_double_def Let_def s'_def split: if_splits)
  have "to_double (of_int ?a) = Finite (of_int ?a)"
    using a0 a53 by (intro to_double_of_int) simp
  then have fsub: "float_sub (Finite (of_int h)) (Finite (of_int l)) = Finite (of_int ?a)"
    by (simp add: float_sub_def)
  have n0: "0 \<le> ?n" using a0 s0 by (simp add: pos_imp_zdiv_nonneg_iff)
  have dm: "?a = ?n * s + ?a mod s" by simp
  have m0: "0 \<le> ?a mod s" and ms: "?a mod s < s" using s0 by simp_all
  have ns: "?n * s \<le> ?a" using dm m0 by linarith
  have "(?n + 1) * s = ?n * s + s" by (simp add: algebra_simps)
  then have above: "?a < (?n + 1) * s" using dm ms by linarith
  have big: "(2::rat) ^ 53 < 2 ^ 1024" by simp
  have res: "max_n_arithmetic (Finite (of_int l)) (Finite (of_int h)) (Finite s') = Inr (Some ?n)"
  proof (cases "s < 2 ^ 53")
    case True
    have s'eq: "s' = of_int s"
      unfolding s'_def using s0 True by (intro round_double_of_int) simp
    let ?q = "of_int ?a / of_int s :: rat"
    have sne: "(of_int s :: rat) \<noteq> 0" using s0 by simp
    have fl: "\<lfloor>round_double ?q\<rfloor> = ?n"
      using a0 a53 s0 True by (intro floor_round_double_div) simp_all
    have "0 \<le> ?q" using a0 s0 by simp
    then have q_lo: "0 \<le> round_double ?q" by (rule round_double_nonneg)
    have "round_double ?q < of_int \<lfloor>round_double ?q\<rfloor> + 1" by linarith
    then have "round_double ?q < of_int (?n + 1)" by (simp only: fl of_int_add of_int_1)
    moreover have "?n * 1 \<le> ?n * s" using n0 s0 by (intro mult_left_mono) simp_all
    then have n53: "\<bar>?n\<bar> < 2 ^ 53" using n0 ns a53 by linarith
    then have "?n + 1 \<le> 2 ^ 53" using n0 by linarith
    then have "(of_int (?n + 1) :: rat) \<le> of_int (2 ^ 53)" by (simp only: of_int_le_iff)
    then have "(of_int (?n + 1) :: rat) \<le> 2 ^ 53" by simp
    ultimately have q_hi: "round_double ?q < 2 ^ 1024" using big by linarith
    have "to_double ?q = Finite (round_double ?q)"
      using q_lo q_hi by (intro to_double_Finite) linarith+
    then have d: "float_div (Finite (of_int ?a)) (Finite (of_int s)) = Inr (Finite (round_double ?q))"
      using sne by simp
    have mf: "math_floor (Finite (round_double ?q)) = Inr ?n" by (simp only: math_floor.simps fl)
    have fn: "py_float (PyInt ?n) = Inr (Finite (of_int ?n))" using n53 by (rule py_float_exact)
    have "0 \<le> ?n * s" using n0 s0 by simp
    then have "\<bar>?n * s\<bar> < 2 ^ 53" using ns a53 by linarith
    then have "to_double (of_int (?n * s)) = Finite (of_int (?n * s))" by (rule to_double_of_int)
    then have fm: "float_mul (Finite (of_int ?n)) (Finite (of_int s)) = Finite (of_int (?n * s))"
      by simp
    have "\<bar>?n * s + l\<bar> < 2 ^ 53" using \<open>0 \<le> ?n * s\<close> ns lo0 hi53 by linarith
    then have "to_double (of_int (?n * s + l)) = Finite (of_int (?n * s + l))"
      by (rule to_double_of_int)
    then have fa: "float_add (Finite (of_int (?n * s))) (Finite (of_int l))
                     = Finite (of_int (?n * s + l))"
      by simp
    have "\<bar>h - s\<bar> < 2 ^ 53" using s0 True lo0 lohi hi53 by linarith
    then have "to_double (of_int (h - s)) = Finite (of_int (h - s))" by (rule to_double_of_int)
    then have fs2: "float_sub (Finite (of_int h)) (Finite (of_int s)) = Finite (of_int (h - s))"
      by (simp add: float_sub_def)
    have "\<not> ?n * s + l \<le> h - s" using above by (simp add: algebra_simps)
    then have chk: "\<not> float_le (Finite (of_int (?n * s + l))) (Finite (of_int (h - s)))"
      by (simp only: float_le_Finite of_int_le_iff not_False_eq_True)
    show ?thesis
      unfolding max_n_arithmetic_def s'eq
      by (simp only: fsub d sum.case mf fn fm fa fs2 chk if_False)
  next
    case False
    then have "(2::rat) ^ 53 \<le> of_int s"
      by (metis not_less of_int_le_iff of_int_numeral of_int_power)
    then have s53: "2 ^ 53 \<le> s'" unfolding s'_def by (rule round_double_ge_2_53)
    have "(0::rat) < 2 ^ 53" by simp
    with s53 have spos: "0 < s'" by linarith
    let ?q = "of_int ?a / s'"
    have q0: "0 < ?q" using a0 spos by simp
    have "(of_int ?a :: rat) \<le> of_int (2 ^ 53 - 1)" using a53 by (simp only: of_int_le_iff)
    then have a_le: "(of_int ?a :: rat) \<le> 2 ^ 53 - 1" by simp
    have "?q \<le> of_int ?a / 2 ^ 53"
      using s53 a0 by (intro divide_left_mono) simp_all
    also have "\<dots> \<le> (2 ^ 53 - 1) / 2 ^ 53"
      using a_le by (intro divide_right_mono) simp_all
    finally have q_le: "?q \<le> (2 ^ 53 - 1) / 2 ^ 53" .
    have q_lo: "0 \<le> round_double ?q" using q0 by (intro round_double_nonneg) simp
    have q_hi: "round_double ?q < 1" using q0 q_le by (rule round_double_less_1)
    have fl: "\<lfloor>round_double ?q\<rfloor> = 0" using q_lo q_hi by (simp add: floor_unique)
    have "(1::rat) < 2 ^ 1024" by simp
    then have "to_double ?q = Finite (round_double ?q)"
      using q_lo q_hi by (intro to_double_Finite) linarith+
    then have d: "float_div (Finite (of_int ?a)) (Finite s') = Inr (Finite (round_double ?q))"
      using spos by simp
    have mf: "math_floor (Finite (round_double ?q)) = Inr 0" by (simp only: math_floor.simps fl)
    have n_eq: "?n = 0" using a0 False a53 by (intro div_pos_pos_trivial) simp_all
    have fn: "py_float (PyInt 0) = Inr (Finite 0)" using py_float_exact [of 0] by simp
    have fm: "float_mul (Finite 0) (Finite s') = Finite 0"
      by (simp add: to_double_def round_double_0)
    have "to_double (of_int l) = Finite (of_int l)"
      using lo0 lohi hi53 by (intro to_double_of_int) simp
    then have fa: "float_add (Finite 0) (Finite (of_int l)) = Finite (of_int l)" by simp
    have "(of_int h :: rat) \<le> of_int (2 ^ 53 - 1)" using hi53 by (simp only: of_int_le_iff)
    then have "(of_int h :: rat) \<le> 2 ^ 53 - 1" by simp
    then have "of_int h + - s' \<le> - 1" using s53 by linarith
    then have "round_double (of_int h + - s') < 0" by (rule round_double_neg)
    moreover have "(0::rat) \<le> of_int l" using lo0 by simp
    ultimately have "\<not> float_le (Finite (of_int l)) (to_double (of_int h + - s'))"
      by (rule to_double_negative)
    then have chk: "\<not> float_le (Finite (of_int l)) (float_sub (Finite (of_int h)) (Finite s'))"
      by (simp add: float_sub_def)
    show ?thesis
      unfolding max_n_arithmetic_def
      by (simp only: fsub d sum.case mf fn fm fa chk if_False n_eq)
  qed
  show ?thesis
    unfolding max_n_def lo hi ss by (simp add: flo fhi fs st res)
qed

text \<open>
  Under arithmetic steps on integers with \<open>low \<le> high\<close> the number of elements is known:
  one more than the quotient of \<open>high - low\<close> by the step size.
\<close>

lemma interval_list_arithmetic:
  assumes st: "step_type self = Some ARITHMETIC"
    and lo: "low self = PyInt l" and hi: "high self = PyInt h" and ss: "step_size self = PyInt s"
    and lohi: "l \<le> h" and s0: "0 < s"
  shows "interval_list self =
           Some (Inr (map PyInt (map (\<lambda>k. if is_negative self then - (l + s * int k)
                                           else l + s * int k)
                                  [0..<Suc (nat ((h - l) div s))])))"
proof -
  have ok: "steps_ok ARITHMETIC s l" using s0 by (simp add: steps_ok_def)
  from interval_loop_closed_form [OF ok, of h] obtain N where
    run: "\<And>neg values. interval_loop (PyInt h) neg (Some ARITHMETIC) (PyInt s) values (PyInt l) =
            Some (Inr (values @ map (\<lambda>k. PyInt (if neg then - magnitude ARITHMETIC l s k
                                                else magnitude ARITHMETIC l s k)) [0..<N]))"
    and below: "\<And>k. k < N \<Longrightarrow> magnitude ARITHMETIC l s k \<le> h"
    and above: "h < magnitude ARITHMETIC l s N"
    by blast
  have "N \<noteq> 0" using above lohi by (cases N) simp_all
  then obtain M where N: "N = Suc M" by (cases N) simp_all
  have b: "l + s * int M \<le> h" using below [of M] N by simp
  have a: "h < l + s * (int M + 1)" using above N by (simp add: add.commute)
  have "s * (int M + 1) = s * int M + s" by (simp add: algebra_simps)
  with a have r: "h - l - s * int M < s" by linarith
  have "h - l = s * int M + (h - l - s * int M)" by simp
  moreover have "0 \<le> h - l - s * int M" using b by linarith
  ultimately have "(h - l) div s = int M" using r by (rule int_div_pos_eq)
  then have "N = Suc (nat ((h - l) div s))" using N by simp
  then show ?thesis
    unfolding interval_list_def st lo hi ss using run [of "is_negative self" "[]"]
    by (simp add: comp_def)
qed

section \<open>Rounding at known points\<close>

text \<open>Rounding at a known exponent, and overflow.\<close>

lemma round_double_at:
  assumes "2 powi e \<le> \<bar>x\<bar>" and "\<bar>x\<bar> < 2 powi (e + 1)" and "- 1022 \<le> e"
  shows "round_double x = of_int (round_half_even (x / 2 powi (e - 52))) * 2 powi (e - 52)"
proof -
  have "(0::rat) < 2 powi e" by simp
  with assms(1) have ax: "0 < \<bar>x\<bar>" by linarith
  then have x0: "x \<noteq> 0" by simp
  have "e \<le> ilog2 \<bar>x\<bar>" using ax assms(1) by (rule ilog2_ge)
  moreover have "ilog2 \<bar>x\<bar> < e + 1" using ax assms(2) by (rule ilog2_less)
  ultimately have "ilog2 \<bar>x\<bar> = e" by simp
  then have "max (ilog2 \<bar>x\<bar>) (- 1022) = e" using assms(3) by simp
  then show ?thesis using round_double_unfold [OF x0] by simp
qed

lemma round_double_ge_pow:
  assumes "- 1022 \<le> k" and "2 powi k \<le> x"
  shows "2 powi k \<le> round_double x"
proof -
  have "(0::rat) < 2 powi k" by simp
  with assms(2) have x0: "0 < x" by linarith
  then have ax: "\<bar>x\<bar> = x" by simp
  define e where "e = ilog2 x"
  have ke: "k \<le> e" unfolding e_def using x0 assms(2) by (rule ilog2_ge)
  define u :: rat where "u = 2 powi (e - 52)"
  have u: "0 < u" by (simp add: u_def)
  have pe: "(2::rat) powi e = 2 ^ 52 * u"
    using power_int_add [of "2::rat" "e - 52" 52] by (simp add: u_def)
  have lo: "2 powi e \<le> \<bar>x\<bar>" using ilog2_bounds(1) [OF x0] by (simp only: ax e_def)
  have hi: "\<bar>x\<bar> < 2 powi (e + 1)" using ilog2_bounds(2) [OF x0] by (simp only: ax e_def)
  have "- 1022 \<le> e" using assms(1) ke by simp
  with lo hi have rd: "round_double x = of_int (round_half_even (x / u)) * u"
    unfolding u_def by (rule round_double_at)
  have "2 ^ 52 * u \<le> x" using lo by (simp only: pe ax)
  then have "of_int (2 ^ 52) \<le> x / u" using u by (simp add: field_simps)
  then have "2 ^ 52 \<le> \<lfloor>x / u\<rfloor>" by (simp only: le_floor_iff)
  then have "2 ^ 52 \<le> round_half_even (x / u)"
    using round_half_even_ge_floor [of "x / u"] by linarith
  then have "(of_int (2 ^ 52) :: rat) \<le> of_int (round_half_even (x / u))"
    by (simp only: of_int_le_iff)
  then have "of_int (2 ^ 52) * u \<le> of_int (round_half_even (x / u)) * u"
    using u by (intro mult_right_mono) simp_all
  then have "2 powi e \<le> round_double x" by (simp add: pe rd)
  moreover have "(2::rat) powi k \<le> 2 powi e"
    using ke by (intro power_int_increasing) simp_all
  ultimately show ?thesis by linarith
qed

lemma round_double_overflow: "2 ^ 1024 \<le> x \<Longrightarrow> 2 ^ 1024 \<le> round_double x"
  using round_double_ge_pow [of 1024 x] by simp

lemma to_double_overflow: "2 ^ 1024 \<le> x \<Longrightarrow> to_double x = PosInf"
  using round_double_overflow [of x] by (simp add: to_double_def Let_def)

lemma int_to_double_overflow: "2 ^ 1024 \<le> i \<Longrightarrow> int_to_double i = Inl OverflowError"
proof -
  assume "2 ^ 1024 \<le> i"
  then have "(of_int (2 ^ 1024) :: rat) \<le> of_int i" by (simp only: of_int_le_iff)
  then have "(2::rat) ^ 1024 \<le> of_int i" by simp
  then have "2 ^ 1024 \<le> round_double (of_int i)" by (rule round_double_overflow)
  then show ?thesis by (simp add: int_to_double_def Let_def)
qed

lemma int_to_double_exact: "\<bar>k\<bar> < 2 ^ 53 \<Longrightarrow> int_to_double k = Inr (of_int k)"
  using py_float_exact [of k] by (simp add: py_float_def split: sum.splits)

text \<open>The doubles next to \<open>2 ^ 53\<close>: the odd integers there are ties.\<close>

lemma round_double_2_53: "round_double 9007199254740992 = 9007199254740992"
  using round_double_at [of 53 9007199254740992] by (simp add: round_half_even_def Let_def)

lemma round_half_even_tie: "round_half_even (of_int m + 1 / 2) = (if even m then m else m + 1)"
proof -
  have "\<lfloor>of_int m + 1 / 2 :: rat\<rfloor> = m" by (rule floor_unique) simp_all
  then show ?thesis by (simp add: round_half_even_def Let_def)
qed

lemma round_double_2_53_plus_1: "round_double 9007199254740993 = 9007199254740992"
proof -
  have "(9007199254740993::rat) / 2 = of_int 4503599627370496 + 1 / 2" by simp
  then have "round_half_even (9007199254740993 / 2) = 4503599627370496"
    by (simp only: round_half_even_tie) simp
  then show ?thesis using round_double_at [of 53 9007199254740993] by simp
qed

lemma round_double_2_53_plus_3: "round_double 9007199254740995 = 9007199254740996"
proof -
  have "(9007199254740995::rat) / 2 = of_int 4503599627370497 + 1 / 2" by simp
  then have "round_half_even (9007199254740995 / 2) = 4503599627370498"
    by (simp only: round_half_even_tie) simp
  then show ?thesis using round_double_at [of 53 9007199254740995] by simp
qed

lemma round_double_2_53_plus_4: "round_double 9007199254740996 = 9007199254740996"
  using round_double_at [of 53 9007199254740996] by (simp add: round_half_even_def Let_def)

lemma to_double_2_53_plus_1: "to_double 9007199254740993 = Finite 9007199254740992"
  by (simp add: to_double_def round_double_2_53_plus_1)

lemma to_double_2_53_plus_3: "to_double 9007199254740995 = Finite 9007199254740996"
  by (simp add: to_double_def round_double_2_53_plus_3)

lemma to_double_2_53_plus_4: "to_double 9007199254740996 = Finite 9007199254740996"
  by (simp add: to_double_def round_double_2_53_plus_4)

lemma py_float_2_53: "py_float (PyInt 9007199254740992) = Inr (Finite 9007199254740992)"
  by (simp add: py_float_def int_to_double_def round_double_2_53)

lemma py_float_2_53_plus_3: "py_float (PyInt 9007199254740995) = Inr (Finite 9007199254740996)"
  by (simp add: py_float_def int_to_double_def round_double_2_53_plus_3)

section \<open>Properties\<close>

text \<open>
  C1: the claim is that \<open>map_to_interval n\<close> is the element of index \<open>n\<close> of
  \<open>interval_list\<close> on the whole range \<open>0 \<le> n \<le> max_n\<close>. On the valid parameter
  \<open>thirds\<close> the list is \<open>[0, 3, 6, 9]\<close> and \<open>max_n\<close> is 3, but at index 1, where
  the list holds 3, \<open>map_to_interval\<close> raises.
\<close>

theorem map_to_interval_differs_from_interval_list:
  "debug base_ok thirds = Inr ()
   \<and> max_n thirds = Inr (Some 3)
   \<and> interval_list thirds = Some (Inr [PyInt 0, PyInt 3, PyInt 6, PyInt 9])
   \<and> map_to_interval thirds 1 = Inl (AttributeError ''is_neg'')
   \<and> map_to_interval thirds 1 \<noteq> Inr ([PyInt 0, PyInt 3, PyInt 6, PyInt 9] ! 1)"
proof -
  have "py_float (PyInt 3) \<noteq> Inl OverflowError" by (simp add: py_float_exact)
  then have "max_n thirds = Inr (Some ((10 - 0) div 3))"
    by (intro max_n_on_integers) (simp_all add: thirds_def)
  then have "max_n thirds = Inr (Some 3)" by simp
  moreover have "interval_list thirds = Some (Inr [PyInt 0, PyInt 3, PyInt 6, PyInt 9])"
    by (simp add: thirds_def interval_list_def interval_loop.simps step_def)
  moreover have "debug base_ok thirds = Inr ()"
    by (simp add: debug_def base_ok_def thirds_def py_ge_def)
  moreover have "map_to_interval thirds 1 = Inl (AttributeError ''is_neg'')"
    by (simp add: map_to_interval_def abs_val_def getattr_bool_def thirds_def)
  ultimately show ?thesis by simp
qed

text \<open>
  C2: the scenario of the parameter \<open>batch\<close> (low 1, high 128, geometric, step size 2).
  \<open>interval_list\<close> returns the eight powers of two as claimed; \<open>max_n\<close>, claimed to
  return 7, raises the name error of \<^verbatim>\<open>lower_bound\<close>, and \<open>map_to_interval 3\<close>, claimed
  to return 8, raises the attribute error of \<^verbatim>\<open>is_neg\<close>.
\<close>

theorem batch_scenario:
  "interval_list batch
     = Some (Inr [PyInt 1, PyInt 2, PyInt 4, PyInt 8, PyInt 16, PyInt 32, PyInt 64, PyInt 128])
   \<and> max_n batch = Inl (NameError ''lower_bound'')
   \<and> map_to_interval batch 3 = Inl (AttributeError ''is_neg'')"
proof -
  have "interval_list batch
     = Some (Inr [PyInt 1, PyInt 2, PyInt 4, PyInt 8, PyInt 16, PyInt 32, PyInt 64, PyInt 128])"
    by (simp add: batch_def interval_list_def interval_loop.simps step_def)
  moreover have "max_n batch = Inl (NameError ''lower_bound'')"
    by (simp add: max_n_def batch_def py_float_exact)
  moreover have "map_to_interval batch 3 = Inl (AttributeError ''is_neg'')"
    by (simp add: map_to_interval_def abs_val_def py_pow_def getattr_bool_def batch_def)
  ultimately show ?thesis by simp
qed

text \<open>
  C3: the scenario of the parameter \<open>units\<close> (low 32, high 512, arithmetic, step size 32).
  \<open>interval_list\<close> has 16 elements and ends at 512 as claimed; \<open>map_to_interval 15\<close>,
  claimed to return 512, raises the attribute error of \<^verbatim>\<open>is_neg\<close>.
\<close>

theorem units_scenario:
  "map_option (map_sum id length) (interval_list units) = Some (Inr 16)
   \<and> map_option (map_sum id last) (interval_list units) = Some (Inr (PyInt 512))
   \<and> map_to_interval units 15 = Inl (AttributeError ''is_neg'')"
proof -
  have "interval_list units =
          Some (Inr (map PyInt
            [32, 64, 96, 128, 160, 192, 224, 256, 288, 320, 352, 384, 416, 448, 480, 512]))"
    by (simp add: units_def interval_list_def interval_loop.simps step_def)
  moreover have "map_to_interval units 15 = Inl (AttributeError ''is_neg'')"
    by (simp add: map_to_interval_def abs_val_def getattr_bool_def units_def)
  ultimately show ?thesis by simp
qed

text \<open>
  C4: the claim is that \<open>max_n\<close> returns the largest index whose magnitude does not exceed
  \<open>high\<close>. For every parameter with geometric steps \<open>max_n\<close> returns nothing: it raises.
  Where the three casts to \<^verbatim>\<open>float\<close> succeed, as they do for every float and every
  integer in the range of a double, the exception is the name error of \<^verbatim>\<open>lower_bound\<close>;
  otherwise it is the \<^verbatim>\<open>OverflowError\<close> of the cast.
\<close>

theorem max_n_geometric_raises_NameError:
  assumes "step_type self = Some GEOMETRIC"
  shows "(max_n self = Inl (NameError ''lower_bound'') \<or> max_n self = Inl OverflowError)
       \<and> (py_float (low self) \<noteq> Inl OverflowError
            \<and> py_float (high self) \<noteq> Inl OverflowError
            \<and> py_float (step_size self) \<noteq> Inl OverflowError
          \<longrightarrow> max_n self = Inl (NameError ''lower_bound''))"
  using assms
  by (auto simp add: max_n_def dest: py_float_error split: sum.splits)

theorem max_n_geometric_raises_NameError_witness:
  "step_type batch = Some GEOMETRIC
   \<and> py_float (low batch) \<noteq> Inl OverflowError
   \<and> py_float (high batch) \<noteq> Inl OverflowError
   \<and> py_float (step_size batch) \<noteq> Inl OverflowError
   \<and> max_n batch = Inl (NameError ''lower_bound'')"
proof -
  have h: "step_type batch = Some GEOMETRIC" by (simp add: batch_def)
  have c: "py_float (low batch) \<noteq> Inl OverflowError"
    "py_float (high batch) \<noteq> Inl OverflowError"
    "py_float (step_size batch) \<noteq> Inl OverflowError"
    by (simp_all add: batch_def py_float_exact)
  from h c max_n_geometric_raises_NameError [OF h] show ?thesis by simp
qed

text \<open>
  C6, as stated: \<open>debug\<close> signals a \<open>ValidationError\<close>, not a warning, for a parameter
  with low \<open>-1\<close> and high 10. It does not: what it raises there is a \<^verbatim>\<open>Warning\<close>.
\<close>

theorem debug_negative_low_not_ValidationError:
  "\<not> raises_ValidationError (debug base_ok negative_low)"
  by (simp add: raises_ValidationError_def debug_def base_ok_def negative_low_def)

text \<open>
  C6, amended: for each of the six configurations (low \<open>-1\<close> with high 10; low 5 with
  high 3; step size 0; geometric with step size 1; geometric with low \<open>-4\<close> and high 8;
  geometric with low 0 and high 8), whatever the other fields are and whether the numbers
  are given as integers or as floats, \<open>debug\<close> raises a \<^verbatim>\<open>Warning\<close> once the validation
  of the base class has passed.
\<close>

theorem debug_raises_Warning:
  assumes "super_debug self = Inr ()"
    and "(py_eq (low self) (PyInt (- 1)) \<and> py_eq (high self) (PyInt 10))
       \<or> (py_eq (low self) (PyInt 5) \<and> py_eq (high self) (PyInt 3))
       \<or> py_eq (step_size self) (PyInt 0)
       \<or> (step_type self = Some GEOMETRIC \<and> py_eq (step_size self) (PyInt 1))
       \<or> (step_type self = Some GEOMETRIC
            \<and> py_eq (low self) (PyInt (- 4)) \<and> py_eq (high self) (PyInt 8))
       \<or> (step_type self = Some GEOMETRIC
            \<and> py_eq (low self) (PyInt 0) \<and> py_eq (high self) (PyInt 8))"
  shows "raises_Warning (debug super_debug self)"
proof -
  have eq: "py_eq a (PyInt k) = (exact a = Finite (of_int k))" for a k
    by (cases "exact a") (auto simp add: py_eq_def)
  from assms(2) show ?thesis
    by (auto simp add: raises_Warning_def debug_def assms(1) eq py_lt_def py_le_def py_ge_def
          py_gt_def float_le_def)
qed

theorem debug_raises_Warning_witness:
  "raises_Warning (debug base_ok negative_low)
   \<and> raises_Warning (debug base_ok inverted_bounds)
   \<and> raises_Warning (debug base_ok zero_step)
   \<and> raises_Warning (debug base_ok geometric_unit_step)
   \<and> raises_Warning (debug base_ok geometric_sign_mismatch)
   \<and> raises_Warning (debug base_ok geometric_zero_low)"
proof -
  have b: "\<And>p. base_ok p = Inr ()" by (simp add: base_ok_def)
  have "raises_Warning (debug base_ok negative_low)"
    by (rule debug_raises_Warning [OF b]) (simp add: negative_low_def)
  moreover have "raises_Warning (debug base_ok inverted_bounds)"
    by (rule debug_raises_Warning [OF b]) (simp add: inverted_bounds_def)
  moreover have "raises_Warning (debug base_ok zero_step)"
    by (rule debug_raises_Warning [OF b]) (simp add: zero_step_def)
  moreover have "raises_Warning (debug base_ok geometric_unit_step)"
    by (rule debug_raises_Warning [OF b]) (simp add: geometric_unit_step_def)
  moreover have "raises_Warning (debug base_ok geometric_sign_mismatch)"
    by (rule debug_raises_Warning [OF b]) (simp add: geometric_sign_mismatch_def)
  moreover have "raises_Warning (debug base_ok geometric_zero_low)"
    by (rule debug_raises_Warning [OF b]) (simp add: geometric_zero_low_def)
  ultimately show ?thesis by simp
qed

text \<open>
  C10: when \<open>low\<close> is strictly greater than \<open>high\<close>, \<open>interval_list\<close> returns the
  empty list: the loop condition fails at once, whatever the other fields are.
\<close>

theorem interval_list_low_above_high:
  "py_lt (high self) (low self) \<Longrightarrow> interval_list self = Some (Inr [])"
  by (simp add: interval_list_def interval_loop_stop py_lt_def py_le_def float_lt_not_le)

theorem interval_list_low_above_high_witness:
  "py_lt (high inverted_bounds) (low inverted_bounds)
   \<and> interval_list inverted_bounds = Some (Inr [])"
proof -
  have h: "py_lt (high inverted_bounds) (low inverted_bounds)"
    by (simp add: inverted_bounds_def)
  from h interval_list_low_above_high [OF h] show ?thesis by simp
qed

text \<open>
  C7: the claim is that the construction with \<^verbatim>\<open>is_negative=True\<close> gives the results of
  the construction with \<^verbatim>\<open>is_negative=False\<close> with the sign of every produced value
  flipped, for \<open>interval_list\<close>, \<open>map_to_interval\<close> and \<open>max_n\<close>. On \<open>units\<close>
  constructed with \<^verbatim>\<open>is_negative=True\<close>, \<open>interval_list\<close> returns the negated list and
  \<open>max_n\<close> is 15 as for \<open>units\<close>, but \<open>map_to_interval 15\<close>, whose value would be
  \<open>-512\<close>, produces no value: it raises the attribute error of \<^verbatim>\<open>is_neg\<close>.
\<close>

theorem negative_units_scenario:
  "debug base_ok negative_units = Inr ()
   \<and> interval_list units = Some (Inr (map PyInt
       [32, 64, 96, 128, 160, 192, 224, 256, 288, 320, 352, 384, 416, 448, 480, 512]))
   \<and> interval_list negative_units = Some (Inr (map PyInt
       [- 32, - 64, - 96, - 128, - 160, - 192, - 224, - 256, - 288, - 320, - 352, - 384,
        - 416, - 448, - 480, - 512]))
   \<and> max_n units = Inr (Some 15)
   \<and> max_n negative_units = Inr (Some 15)
   \<and> map_to_interval negative_units 15 = Inl (AttributeError ''is_neg'')
   \<and> map_to_interval negative_units 15 \<noteq> Inr (PyInt (- 512))"
proof -
  have sf: "py_float (PyInt 32) \<noteq> Inl OverflowError" by (simp add: py_float_exact)
  have "debug base_ok negative_units = Inr ()"
    by (simp add: debug_def base_ok_def negative_units_def py_ge_def)
  moreover have "interval_list units = Some (Inr (map PyInt
       [32, 64, 96, 128, 160, 192, 224, 256, 288, 320, 352, 384, 416, 448, 480, 512]))"
    by (simp add: units_def interval_list_def interval_loop.simps step_def)
  moreover have "interval_list negative_units = Some (Inr (map PyInt
       [- 32, - 64, - 96, - 128, - 160, - 192, - 224, - 256, - 288, - 320, - 352, - 384,
        - 416, - 448, - 480, - 512]))"
    by (simp add: negative_units_def interval_list_def interval_loop.simps step_def)
  moreover have "max_n units = Inr (Some ((512 - 32) div 32))"
    using sf by (intro max_n_on_integers) (simp_all add: units_def)
  then have "max_n units = Inr (Some 15)" by simp
  moreover have "max_n negative_units = Inr (Some ((512 - 32) div 32))"
    using sf by (intro max_n_on_integers) (simp_all add: negative_units_def)
  then have "max_n negative_units = Inr (Some 15)" by simp
  moreover have "map_to_interval negative_units 15 = Inl (AttributeError ''is_neg'')"
    by (simp add: map_to_interval_def abs_val_def getattr_bool_def negative_units_def)
  ultimately show ?thesis by simp
qed

text \<open>
  C8, as stated: for every parameter and every index \<open>n \<ge> 0\<close>, \<open>map_to_interval\<close> raises
  an attribute error. It does not where the arithmetic that comes first raises: with the
  float step size \<^verbatim>\<open>2.0\<close> under geometric steps, \<^verbatim>\<open>2.0 ** 1024\<close> raises
  \<^verbatim>\<open>OverflowError\<close>; with the float step size \<^verbatim>\<open>0.5\<close> under arithmetic steps,
  the product with the index \<open>2 ^ 1024\<close> raises \<^verbatim>\<open>OverflowError\<close>. Both parameters are
  accepted by \<open>debug\<close>.
\<close>

theorem map_to_interval_raises_OverflowError:
  "debug base_ok float_step = Inr ()
   \<and> map_to_interval float_step 1024 = Inl OverflowError
   \<and> debug base_ok half_step = Inr ()
   \<and> map_to_interval half_step (2 ^ 1024) = Inl OverflowError"
proof -
  have "debug base_ok float_step = Inr ()"
    by (simp add: debug_def base_ok_def float_step_def py_ge_def py_gt_def py_le_def py_lt_def
          py_eq_def)
  moreover have "map_to_interval float_step 1024 = Inl OverflowError"
  proof -
    have "int_to_double 1024 = Inr 1024" using int_to_double_exact [of 1024] by simp
    moreover have "to_double (2 ^ 1024) = PosInf" by (rule to_double_overflow) simp
    ultimately show ?thesis
      by (simp add: map_to_interval_def abs_val_def float_step_def py_pow_def float_pow_def)
  qed
  moreover have "debug base_ok half_step = Inr ()"
    by (simp add: debug_def base_ok_def half_step_def py_ge_def py_gt_def py_le_def py_lt_def
          py_eq_def)
  moreover have "map_to_interval half_step (2 ^ 1024) = Inl OverflowError"
  proof -
    have "int_to_double (2 ^ 1024) = Inl OverflowError" by (rule int_to_double_overflow) simp
    then show ?thesis
      by (simp add: map_to_interval_def abs_val_def half_step_def float_op_def py_float_def)
  qed
  ultimately show ?thesis by simp
qed

text \<open>
  C8, amended: for every parameter and every index \<open>n \<ge> 0\<close>, \<open>map_to_interval\<close> never
  returns a value. It raises the attribute error of the name \<^verbatim>\<open>is_neg\<close>, which the
  constructor never assigns, unless the arithmetic that comes first raises
  \<^verbatim>\<open>OverflowError\<close>; with an integer \<open>low\<close> and an integer \<open>step_size\<close> the arithmetic
  is exact and the exception is always the attribute error.
\<close>

theorem map_to_interval_never_returns:
  "(map_to_interval self n = Inl (AttributeError ''is_neg'')
      \<or> map_to_interval self n = Inl OverflowError)
   \<and> (low self = PyInt l \<and> step_size self = PyInt s
        \<longrightarrow> map_to_interval self n = Inl (AttributeError ''is_neg''))"
proof -
  have "map_to_interval self n = Inl (AttributeError ''is_neg'')
          \<or> map_to_interval self n = Inl OverflowError"
    by (auto simp add: map_to_interval_def getattr_bool_def dest: abs_val_error
          split: sum.splits)
  moreover have "map_to_interval self n = Inl (AttributeError ''is_neg'')"
    if "low self = PyInt l" and "step_size self = PyInt s"
    using abs_val_PyInt [OF that, of n]
    by (auto simp add: map_to_interval_def getattr_bool_def)
  ultimately show ?thesis by blast
qed

theorem map_to_interval_never_returns_witness:
  "low units = PyInt 32 \<and> step_size units = PyInt 32
   \<and> map_to_interval units 15 = Inl (AttributeError ''is_neg'')"
proof -
  have h: "low units = PyInt 32 \<and> step_size units = PyInt 32" by (simp add: units_def)
  from h map_to_interval_never_returns [of units 15 32 32] show ?thesis by simp
qed

text \<open>
  C9, as stated: \<open>interval_list\<close> terminates for every parameter that \<open>debug\<close> accepts.
  The parameter \<open>absorbed_step\<close> is accepted, but its loop never returns: the sum of the
  float \<open>2 ^ 53\<close> and 1 rounds to \<open>2 ^ 53\<close>, so the current value stays below \<open>high\<close> for
  ever.
\<close>

theorem interval_list_absorbed_step:
  "debug base_ok absorbed_step = Inr () \<and> interval_list absorbed_step = None"
proof -
  have "debug base_ok absorbed_step = Inr ()"
    by (simp add: debug_def base_ok_def absorbed_step_def py_ge_def py_gt_def py_le_def
          py_lt_def py_eq_def float_le_def)
  moreover have "py_le (PyFloat (Finite 9007199254740992)) (PyFloat (Finite 9007199254740994))"
    by (simp add: py_le_def)
  moreover have "step (Some ARITHMETIC) (PyInt 1) (PyFloat (Finite 9007199254740992))
                   = Inr (PyFloat (Finite 9007199254740992))"
  proof -
    have "py_float (PyInt 1) = Inr (Finite 1)" using py_float_exact [of 1] by simp
    then show ?thesis
      by (simp add: step_def float_op_def py_float_def [of "PyFloat _"] to_double_2_53_plus_1)
  qed
  ultimately show ?thesis
    by (simp add: interval_list_def absorbed_step_def interval_loop_stuck)
qed

text \<open>
  C9, amended: \<open>interval_list\<close> terminates, that is returns a list, for every parameter
  that \<open>debug\<close> accepts and whose \<open>low\<close>, \<open>high\<close> and \<open>step_size\<close> are integers.
\<close>

theorem interval_list_terminates:
  assumes "debug super_debug self = Inr ()"
    and "low self = PyInt l" and "high self = PyInt h" and "step_size self = PyInt s"
  shows "\<exists>xs. interval_list self = Some (Inr xs)"
proof -
  from debug_accepts(1) [OF assms] obtain st where
    st: "step_type self = Some st" and ok: "steps_ok st s l"
    by blast
  from interval_loop_closed_form [OF ok, of h] show ?thesis
    unfolding interval_list_def st assms(2-4) by blast
qed

theorem interval_list_terminates_witness:
  "debug base_ok batch = Inr ()
   \<and> low batch = PyInt 1 \<and> high batch = PyInt 128 \<and> step_size batch = PyInt 2
   \<and> (\<exists>xs. interval_list batch = Some (Inr xs))"
proof -
  have f: "low batch = PyInt 1" "high batch = PyInt 128" "step_size batch = PyInt 2"
    by (simp_all add: batch_def)
  from debug_base_ok_batch f interval_list_terminates [OF debug_base_ok_batch f]
  show ?thesis by simp
qed

text \<open>
  C5, as stated: for every arithmetic parameter that \<open>debug\<close> accepts, \<open>interval_list\<close> has
  exactly \<open>max_n + 1\<close> elements. The parameter \<open>beyond_double\<close> is accepted and its list has
  the 4 elements from \<open>2 ^ 53\<close> to \<open>2 ^ 53 + 3\<close>, but \<open>max_n\<close> returns 5: as doubles,
  high is \<open>2 ^ 53 + 4\<close>, the quotient is 4, and \<open>4 * 1 + low\<close> and \<open>high - 1\<close> both round to
  \<open>2 ^ 53 + 4\<close>, so that the test succeeds and one is added.
\<close>

theorem max_n_beyond_double:
  "debug base_ok beyond_double = Inr ()
   \<and> step_type beyond_double = Some ARITHMETIC
   \<and> interval_list beyond_double
       = Some (Inr [PyInt 9007199254740992, PyInt 9007199254740993, PyInt 9007199254740994,
                    PyInt 9007199254740995])
   \<and> map_option (map_sum id length) (interval_list beyond_double) = Some (Inr 4)
   \<and> max_n beyond_double = Inr (Some 5)"
proof -
  have "debug base_ok beyond_double = Inr ()"
    by (simp add: debug_def base_ok_def beyond_double_def py_ge_def)
  moreover have "step_type beyond_double = Some ARITHMETIC" by (simp add: beyond_double_def)
  moreover have "interval_list beyond_double
       = Some (Inr [PyInt 9007199254740992, PyInt 9007199254740993, PyInt 9007199254740994,
                    PyInt 9007199254740995])"
    by (simp add: beyond_double_def interval_list_def interval_loop.simps step_def)
  moreover have "max_n beyond_double = Inr (Some 5)"
  proof -
    have a: "to_double 4 = Finite 4" using to_double_of_int [of 4] by simp
    have b: "py_float (PyInt 4) = Inr (Finite 4)" "py_float (PyInt 1) = Inr (Finite 1)"
      using py_float_exact [of 4] py_float_exact [of 1] by simp_all
    show ?thesis
      by (simp add: max_n_def max_n_arithmetic_def beyond_double_def py_float_2_53
            py_float_2_53_plus_3 float_sub_def a b to_double_2_53_plus_3 to_double_2_53_plus_4)
  qed
  ultimately show ?thesis by simp
qed

text \<open>
  C5, amended: for every arithmetic parameter that \<open>debug\<close> accepts, whose \<open>low\<close>, \<open>high\<close>
  and \<open>step_size\<close> are integers, whose \<open>high\<close> is below \<open>2 ^ 53\<close> and whose \<open>step_size\<close>
  converts to a float, \<open>interval_list\<close> returns a list of integers and \<open>max_n\<close> an index
  \<open>n\<close> such that the list has exactly \<open>n + 1\<close> elements, its first element is \<open>low\<close> with
  the sign applied per \<open>is_negative\<close>, the magnitude of its last element is at most
  \<open>high\<close>, and the magnitudes of every two consecutive elements differ by exactly the
  step size.
\<close>

theorem arithmetic_interval_list_shape:
  assumes ok: "debug super_debug self = Inr ()"
    and st: "step_type self = Some ARITHMETIC"
    and lo: "low self = PyInt l" and hi: "high self = PyInt h" and ss: "step_size self = PyInt s"
    and hi53: "h < 2 ^ 53"
    and sf: "py_float (PyInt s) \<noteq> Inl OverflowError"
  shows "\<exists>xs n. interval_list self = Some (Inr (map PyInt xs)) \<and> max_n self = Inr (Some n)
           \<and> int (length xs) = n + 1
           \<and> xs \<noteq> []
           \<and> hd xs = (if is_negative self then - l else l)
           \<and> \<bar>last xs\<bar> \<le> h
           \<and> (\<forall>i. Suc i < length xs \<longrightarrow> \<bar>xs ! Suc i\<bar> - \<bar>xs ! i\<bar> = s)"
proof -
  let ?n = "(h - l) div s"
  let ?f = "\<lambda>k. if is_negative self then - (l + s * int k) else l + s * int k"
  let ?xs = "map ?f [0..<Suc (nat ?n)]"
  note lo0 = debug_accepts(2) [OF ok lo hi ss] and lohi = debug_accepts(3) [OF ok lo hi ss]
    and s0 = debug_accepts(4) [OF ok lo hi ss]
  have n0: "0 \<le> ?n" using lohi s0 by (simp add: pos_imp_zdiv_nonneg_iff)
  have absf: "\<bar>?f k\<bar> = l + s * int k" for k
  proof -
    have "0 \<le> s * int k" using s0 by simp
    with lo0 have "0 \<le> l + s * int k" by linarith
    then show ?thesis by simp
  qed
  have il: "interval_list self = Some (Inr (map PyInt ?xs))"
    using st lo hi ss _ s0 by (rule interval_list_arithmetic) (use lohi in simp)
  have mn: "max_n self = Inr (Some ?n)"
    using st lo hi ss lo0 lohi hi53 s0 sf by (rule max_n_on_integers)
  have len: "int (length ?xs) = ?n + 1" using n0 by simp
  have ne: "?xs \<noteq> []" by simp
  have hd: "hd ?xs = (if is_negative self then - l else l)"
    by (simp add: upt_conv_Cons del: upt_Suc)
  have "last ?xs = ?f (nat ?n)" by simp
  then have "\<bar>last ?xs\<bar> = l + s * int (nat ?n)" by (simp only: absf)
  also have "\<dots> = l + s * ?n" using n0 by simp
  also have "\<dots> \<le> h"
  proof -
    have "h - l = s * ?n + (h - l) mod s" by simp
    moreover have "0 \<le> (h - l) mod s" using s0 by simp
    ultimately show ?thesis by linarith
  qed
  finally have lst: "\<bar>last ?xs\<bar> \<le> h" .
  have df: "\<forall>i. Suc i < length ?xs \<longrightarrow> \<bar>?xs ! Suc i\<bar> - \<bar>?xs ! i\<bar> = s"
  proof (intro allI impI)
    fix i assume i: "Suc i < length ?xs"
    then have "?xs ! Suc i = ?f (Suc i)" and "?xs ! i = ?f i"
      by (simp_all add: nth_append del: upt_Suc)
    then have "\<bar>?xs ! Suc i\<bar> - \<bar>?xs ! i\<bar> = (l + s * int (Suc i)) - (l + s * int i)"
      by (simp only: absf)
    also have "\<dots> = s" by (simp add: algebra_simps)
    finally show "\<bar>?xs ! Suc i\<bar> - \<bar>?xs ! i\<bar> = s" .
  qed
  from il mn len ne hd lst df show ?thesis by blast
qed

theorem arithmetic_interval_list_shape_witness:
  "debug base_ok units = Inr () \<and> step_type units = Some ARITHMETIC
   \<and> low units = PyInt 32 \<and> high units = PyInt 512 \<and> step_size units = PyInt 32
   \<and> (512::int) < 2 ^ 53 \<and> py_float (PyInt 32) \<noteq> Inl OverflowError
   \<and> (\<exists>xs n. interval_list units = Some (Inr (map PyInt xs)) \<and> max_n units = Inr (Some n)
           \<and> int (length xs) = n + 1
           \<and> xs \<noteq> []
           \<and> hd xs = (if is_negative units then - 32 else 32)
           \<and> \<bar>last xs\<bar> \<le> 512
           \<and> (\<forall>i. Suc i < length xs \<longrightarrow> \<bar>xs ! Suc i\<bar> - \<bar>xs ! i\<bar> = 32))"
proof -
  have st: "step_type units = Some ARITHMETIC" by (simp add: units_def)
  have f: "low units = PyInt 32" "high units = PyInt 512" "step_size units = PyInt 32"
    by (simp_all add: units_def)
  have hi: "(512::int) < 2 ^ 53" by simp
  have sf: "py_float (PyInt 32) \<noteq> Inl OverflowError" by (simp add: py_float_exact)
  from debug_base_ok_units st f hi sf
    arithmetic_interval_list_shape [OF debug_base_ok_units st f hi sf]
  show ?thesis by simp
qed

end
